theory Spec2Isabelle
  imports Main "HOL-Library.Word"
begin

unbundle bit_operations_syntax

section \<open>Byte buffers and numbers\<close>

text \<open>
  A \<open>Uint8Array\<close> is a list of 8-bit words.  A JavaScript number is an \<open>int\<close>
  (fractions, NaN and infinities are outside the model); \<open>ToUint32\<close>, which every
  \<open>>>>\<close> applies to its left operand, is reduction modulo \<open>2 ^ 32\<close>.  A JavaScript
  string is its sequence of UTF-16 code units.
\<close>

type_synonym byte = "8 word"
type_synonym u32 = "32 word"
type_synonym jsstring = "16 word list"

datatype error =
    TooSmall          \<comment> \<open>"File too small to be a legacy uImage."\<close>
  | BadMagic          \<comment> \<open>"Not a legacy uImage (bad magic)."\<close>
  | PayloadOverrun    \<comment> \<open>"Declared payload size (...) exceeds file length."\<close>
  | MissingWrapper    \<comment> \<open>"Payload size less than 8"\<close>
  | RangeError        \<comment> \<open>thrown by \<open>TypedArray.prototype.set\<close> when the source does not fit\<close>

definition bindE :: "'e + 'a \<Rightarrow> ('a \<Rightarrow> 'e + 'b) \<Rightarrow> 'e + 'b" where
  "bindE m f = (case m of Inl e \<Rightarrow> Inl e | Inr x \<Rightarrow> f x)"

definition to_uint32 :: "int \<Rightarrow> u32" where
  "to_uint32 v = word_of_int v"

text \<open>\<open>buf[i]\<close> as the operand of a bit operator: out of range it is \<open>undefined\<close>,
  which the operator coerces to 0.\<close>

definition byte_at :: "byte list \<Rightarrow> nat \<Rightarrow> byte" where
  "byte_at buf i = (if i < length buf then buf ! i else 0)"

text \<open>\<open>slice(a, b)\<close> with non-negative arguments; both ends are clamped to the length.\<close>

definition slice_list :: "'a list \<Rightarrow> nat \<Rightarrow> nat \<Rightarrow> 'a list" where
  "slice_list xs a b = take (b - a) (drop a xs)"

text \<open>\<open>target.set(src, off)\<close>: copies \<open>src\<close> into \<open>target\<close> at \<open>off\<close>, and throws
  when \<open>src\<close> does not fit.\<close>

definition typed_set :: "byte list \<Rightarrow> byte list \<Rightarrow> nat \<Rightarrow> error + byte list" where
  "typed_set target src off =
     (if off + length src > length target then Inl RangeError
      else Inr (take off target @ src @ drop (off + length src) target))"

fun indexOf :: "byte list \<Rightarrow> byte \<Rightarrow> int" where
  "indexOf [] v = - 1"
| "indexOf (b # bs) v =
     (if b = v then 0 else (let r = indexOf bs v in if r < 0 then - 1 else r + 1))"

definition UIMAGE_MAGIC :: int where
  "UIMAGE_MAGIC = 0x27051956"

definition HEADER_SIZE :: nat where
  "HEADER_SIZE = 64"

definition TYPE_SCRIPT :: int where
  "TYPE_SCRIPT = 6"

definition COMP_NONE :: int where
  "COMP_NONE = 0"

definition readU32BE :: "byte list \<Rightarrow> nat \<Rightarrow> int" where
  "readU32BE buf off =
     uint (push_bit 24 (ucast (byte_at buf off)) OR
           push_bit 16 (ucast (byte_at buf (off + 1))) OR
           push_bit 8 (ucast (byte_at buf (off + 2))) OR
           (ucast (byte_at buf (off + 3)) :: u32))"

definition writeU32BE :: "byte list \<Rightarrow> nat \<Rightarrow> int \<Rightarrow> byte list" where
  "writeU32BE buf off val =
     (let w = to_uint32 val in
      buf[off := ucast (drop_bit 24 w AND 0xff),
          off + 1 := ucast (drop_bit 16 w AND 0xff),
          off + 2 := ucast (drop_bit 8 w AND 0xff),
          off + 3 := ucast (w AND 0xff)])"

section \<open>CRC32\<close>

fun crc_bit_loop :: "nat \<Rightarrow> u32 \<Rightarrow> u32" where
  "crc_bit_loop 0 c = c"
| "crc_bit_loop (Suc k) c =
     crc_bit_loop k (if c AND 1 \<noteq> 0 then 0xedb88320 XOR drop_bit 1 c else drop_bit 1 c)"

definition CRC32_TABLE :: "u32 list" where
  "CRC32_TABLE = map (\<lambda>i. crc_bit_loop 8 (of_nat i)) [0..<256]"

fun crc32_loop :: "u32 \<Rightarrow> byte list \<Rightarrow> u32" where
  "crc32_loop c [] = c"
| "crc32_loop c (d # ds) =
     crc32_loop (CRC32_TABLE ! unat ((c XOR ucast d) AND 0xff) XOR drop_bit 8 c) ds"

definition crc32_seed :: "byte list \<Rightarrow> int \<Rightarrow> int" where
  "crc32_seed data seed = uint (crc32_loop (to_uint32 seed) data XOR 0xffffffff)"

definition crc32 :: "byte list \<Rightarrow> int" where
  "crc32 data = crc32_seed data 0xffffffff"

section \<open>Text encoding and decoding\<close>

text \<open>
  \<open>TextEncoder\<close> and \<open>TextDecoder\<close> belong to the platform, not to the repository; they
  are written out here from the Encoding Standard that defines them, since the round trip
  of the script text and of the image name goes through them.
\<close>

definition is_high_surrogate :: "16 word \<Rightarrow> bool" where
  "is_high_surrogate u = (0xD800 \<le> u \<and> u \<le> 0xDBFF)"

definition is_low_surrogate :: "16 word \<Rightarrow> bool" where
  "is_low_surrogate u = (0xDC00 \<le> u \<and> u \<le> 0xDFFF)"

definition is_surrogate :: "16 word \<Rightarrow> bool" where
  "is_surrogate u = (is_high_surrogate u \<or> is_low_surrogate u)"

definition lone_unit :: "16 word \<Rightarrow> nat" where
  "lone_unit u = (if is_surrogate u then 0xFFFD else unat u)"

text \<open>The scalar values of a string: a surrogate pair is one code point, a surrogate
  without its partner is replaced by U+FFFD.\<close>

fun to_code_points :: "jsstring \<Rightarrow> nat list" where
  "to_code_points [] = []"
| "to_code_points [u] = [lone_unit u]"
| "to_code_points (u # v # us) =
     (if is_high_surrogate u \<and> is_low_surrogate v
      then (0x10000 + (unat u - 0xD800) * 0x400 + (unat v - 0xDC00)) # to_code_points us
      else lone_unit u # to_code_points (v # us))"

definition utf8_bytes :: "nat \<Rightarrow> byte list" where
  "utf8_bytes cp =
     (if cp < 0x80 then [of_nat cp]
      else if cp < 0x800 then [of_nat (0xC0 + cp div 64), of_nat (0x80 + cp mod 64)]
      else if cp < 0x10000 then
        [of_nat (0xE0 + cp div 4096), of_nat (0x80 + cp div 64 mod 64), of_nat (0x80 + cp mod 64)]
      else
        [of_nat (0xF0 + cp div 262144), of_nat (0x80 + cp div 4096 mod 64),
         of_nat (0x80 + cp div 64 mod 64), of_nat (0x80 + cp mod 64)])"

text \<open>\<open>new TextEncoder().encode(s)\<close>\<close>

definition TextEncoder_encode :: "jsstring \<Rightarrow> byte list" where
  "TextEncoder_encode s = concat (map utf8_bytes (to_code_points s))"

text \<open>The UTF-8 decoder of the standard: its state, and what one byte does to it.  A byte
  outside the expected range ends the sequence with U+FFFD and is then read again as the
  start of a new one.\<close>

record utf8_state =
  code_point :: nat
  bytes_seen :: nat
  bytes_needed :: nat
  lower_boundary :: nat
  upper_boundary :: nat

definition utf8_init :: utf8_state where
  "utf8_init = \<lparr>code_point = 0, bytes_seen = 0, bytes_needed = 0,
                 lower_boundary = 0x80, upper_boundary = 0xBF\<rparr>"

definition utf8_lead :: "nat \<Rightarrow> utf8_state \<times> nat list" where
  "utf8_lead b =
     (if b \<le> 0x7F then (utf8_init, [b])
      else if 0xC2 \<le> b \<and> b \<le> 0xDF then
        (utf8_init\<lparr>bytes_needed := 1, code_point := b mod 32\<rparr>, [])
      else if 0xE0 \<le> b \<and> b \<le> 0xEF then
        (utf8_init\<lparr>lower_boundary := (if b = 0xE0 then 0xA0 else 0x80),
                    upper_boundary := (if b = 0xED then 0x9F else 0xBF),
                    bytes_needed := 2, code_point := b mod 16\<rparr>, [])
      else if 0xF0 \<le> b \<and> b \<le> 0xF4 then
        (utf8_init\<lparr>lower_boundary := (if b = 0xF0 then 0x90 else 0x80),
                    upper_boundary := (if b = 0xF4 then 0x8F else 0xBF),
                    bytes_needed := 3, code_point := b mod 8\<rparr>, [])
      else (utf8_init, [0xFFFD]))"

definition utf8_handle :: "utf8_state \<Rightarrow> nat \<Rightarrow> utf8_state \<times> nat list" where
  "utf8_handle st b =
     (if bytes_needed st = 0 then utf8_lead b
      else if b < lower_boundary st \<or> upper_boundary st < b then
        (case utf8_lead b of (st', out) \<Rightarrow> (st', 0xFFFD # out))
      else
        (let cp = code_point st * 64 + b mod 64 in
         if bytes_seen st + 1 \<noteq> bytes_needed st then
           (st\<lparr>lower_boundary := 0x80, upper_boundary := 0xBF,
               code_point := cp, bytes_seen := bytes_seen st + 1\<rparr>, [])
         else (utf8_init, [cp])))"

fun utf8_run :: "utf8_state \<Rightarrow> byte list \<Rightarrow> nat list" where
  "utf8_run st [] = (if bytes_needed st \<noteq> 0 then [0xFFFD] else [])"
| "utf8_run st (b # bs) = (case utf8_handle st (unat b) of (st', out) \<Rightarrow> out @ utf8_run st' bs)"

definition from_code_point :: "nat \<Rightarrow> jsstring" where
  "from_code_point cp =
     (if cp < 0x10000 then [of_nat cp]
      else [of_nat (0xD800 + (cp - 0x10000) div 0x400), of_nat (0xDC00 + (cp - 0x10000) mod 0x400)])"

text \<open>A decoder made without \<open>ignoreBOM\<close> drops a leading U+FEFF.\<close>

definition strip_bom :: "nat list \<Rightarrow> nat list" where
  "strip_bom cps = (case cps of [] \<Rightarrow> [] | c # cs \<Rightarrow> if c = 0xFEFF then cs else cps)"

text \<open>\<open>new TextDecoder("utf-8").decode(bytes)\<close>\<close>

definition TextDecoder_utf8 :: "byte list \<Rightarrow> jsstring" where
  "TextDecoder_utf8 bytes = concat (map from_code_point (strip_bom (utf8_run utf8_init bytes)))"

text \<open>The label "ascii" names the windows-1252 decoder: bytes below 0x80 and from 0xA0 on
  decode to the code unit of the same value, the 32 bytes between through this table.\<close>

definition windows_1252_high :: "16 word list" where
  "windows_1252_high =
     [0x20AC, 0x0081, 0x201A, 0x0192, 0x201E, 0x2026, 0x2020, 0x2021,
      0x02C6, 0x2030, 0x0160, 0x2039, 0x0152, 0x008D, 0x017D, 0x008F,
      0x0090, 0x2018, 0x2019, 0x201C, 0x201D, 0x2022, 0x2013, 0x2014,
      0x02DC, 0x2122, 0x0161, 0x203A, 0x0153, 0x009D, 0x017E, 0x0178]"

definition windows_1252 :: "byte \<Rightarrow> 16 word" where
  "windows_1252 b =
     (if 0x80 \<le> b \<and> b < 0xA0 then windows_1252_high ! (unat b - 0x80) else ucast b)"

text \<open>\<open>new TextDecoder("ascii").decode(bytes)\<close>\<close>

definition TextDecoder_ascii :: "byte list \<Rightarrow> jsstring" where
  "TextDecoder_ascii bytes = map windows_1252 bytes"

text \<open>\<open>String.prototype.trim\<close> removes white space and line terminators at both ends.\<close>

definition is_js_space :: "16 word \<Rightarrow> bool" where
  "is_js_space u =
     (u = 0x9 \<or> u = 0xA \<or> u = 0xB \<or> u = 0xC \<or> u = 0xD \<or> u = 0x20 \<or> u = 0xA0 \<or>
      u = 0x1680 \<or> (0x2000 \<le> u \<and> u \<le> 0x200A) \<or> u = 0x2028 \<or> u = 0x2029 \<or>
      u = 0x202F \<or> u = 0x205F \<or> u = 0x3000 \<or> u = 0xFEFF)"

definition trim :: "jsstring \<Rightarrow> jsstring" where
  "trim s = rev (dropWhile is_js_space (rev (dropWhile is_js_space s)))"

text \<open>A string literal of the source, all of whose characters are ASCII.\<close>

definition js_literal :: "string \<Rightarrow> jsstring" where
  "js_literal s = map (\<lambda>c. of_nat (of_char c)) s"

section \<open>The header\<close>

record UImageHeader =
  magic :: int
  hcrc :: int
  timestamp :: int
  size_h :: int
  loadAddr :: int
  entryPoint :: int
  dcrc :: int
  os :: int
  arch :: int
  type_h :: int
  comp_h :: int
  name :: jsstring

text \<open>\<open>Partial<UImageHeader>\<close>: every field may be absent.\<close>

record PartialHeader =
  p_magic :: "int option"
  p_hcrc :: "int option"
  p_timestamp :: "int option"
  p_size :: "int option"
  p_loadAddr :: "int option"
  p_entryPoint :: "int option"
  p_dcrc :: "int option"
  p_os :: "int option"
  p_arch :: "int option"
  p_type :: "int option"
  p_comp :: "int option"
  p_name :: "jsstring option"

text \<open>A parsed header handed back as \<open>baseHeader\<close>, as the editor does on save.\<close>

definition as_partial :: "UImageHeader \<Rightarrow> PartialHeader" where
  "as_partial h =
     \<lparr>p_magic = Some (magic h), p_hcrc = Some (hcrc h), p_timestamp = Some (timestamp h),
      p_size = Some (size_h h), p_loadAddr = Some (loadAddr h),
      p_entryPoint = Some (entryPoint h), p_dcrc = Some (dcrc h), p_os = Some (os h),
      p_arch = Some (arch h), p_type = Some (type_h h), p_comp = Some (comp_h h),
      p_name = Some (name h)\<rparr>"

text \<open>\<open>base?.field ?? dflt\<close>\<close>

definition field_or :: "'h option \<Rightarrow> ('h \<Rightarrow> 'a option) \<Rightarrow> 'a \<Rightarrow> 'a" where
  "field_or base field dflt =
     (case base of None \<Rightarrow> dflt
      | Some h \<Rightarrow> (case field h of None \<Rightarrow> dflt | Some v \<Rightarrow> v))"

definition decodeName :: "byte list \<Rightarrow> jsstring" where
  "decodeName bytes =
     (let nul = indexOf bytes 0;
          end = (if nul \<ge> 0 then nat nul else length bytes)
      in trim (TextDecoder_ascii (slice_list bytes 0 end)))"

definition encodeName :: "jsstring \<Rightarrow> error + byte list" where
  "encodeName nm =
     (let out = replicate 32 0;
          raw = TextEncoder_encode nm
      in typed_set out (slice_list raw 0 32) 0)"

section \<open>Parsing\<close>

text \<open>The parser returns the warnings it has shown (\<open>window.showWarningMessage\<close>) together
  with the error it throws or the value it returns.\<close>

definition parseLegacyUImage ::
  "byte list \<Rightarrow> string list \<times> (error + UImageHeader \<times> jsstring)" where
  "parseLegacyUImage buf =
     (if length buf < HEADER_SIZE then ([], Inl TooSmall)
      else
        let magic = readU32BE buf 0 in
        if magic \<noteq> UIMAGE_MAGIC then ([], Inl BadMagic)
        else
          let header = \<lparr>magic = magic,
                hcrc = readU32BE buf 4,
                timestamp = readU32BE buf 8,
                size_h = readU32BE buf 12,
                loadAddr = readU32BE buf 16,
                entryPoint = readU32BE buf 20,
                dcrc = readU32BE buf 24,
                os = uint (buf ! 28),
                arch = uint (buf ! 29),
                type_h = uint (buf ! 30),
                comp_h = uint (buf ! 31),
                name = decodeName (slice_list buf 32 64)\<rparr>;
              payloadStart = HEADER_SIZE;
              payloadEnd = payloadStart + nat (size_h header)
          in
          if payloadEnd > length buf then ([], Inl PayloadOverrun)
          else
            let payload = slice_list buf payloadStart payloadEnd;
                calcDcrc = crc32 payload;
                hdrCopy = writeU32BE (slice_list buf 0 HEADER_SIZE) 4 0;
                calcHcrc = crc32 hdrCopy;
                shown = (if calcDcrc \<noteq> dcrc header \<or> calcHcrc \<noteq> hcrc header
                         then [''boot.scr CRC mismatch''] else [])
            in
            if length payload < 8 then (shown, Inl MissingWrapper)
            else
              let scriptBytes = slice_list payload 8 (length payload);
                  script = TextDecoder_utf8 scriptBytes
              in (shown, Inr (header, script)))"

section \<open>Building\<close>

record build_args =
  script :: jsstring
  baseHeader :: "PartialHeader option"
  defaultName :: jsstring
  defaultLoadAddr :: int
  defaultEntryPoint :: int

text \<open>The builder reads the clock once; \<open>now\<close> is what \<open>Date.now()\<close> returns, in
  milliseconds.  Every \<open>set\<close> of the source is kept with its range check, so the builder
  returns either the container or the error a \<open>set\<close> would throw.  The operands of
  \<open>& 0xff\<close> are read by \<open>ToInt32\<close>, whose low byte is that of \<open>ToUint32\<close>.\<close>

definition buildLegacyScriptImage :: "int \<Rightarrow> build_args \<Rightarrow> error + byte list" where
  "buildLegacyScriptImage now args =
     (let scriptBytes = TextEncoder_encode (script args);
          payload = replicate (8 + length scriptBytes) 0;
          payload = writeU32BE payload 0 (int (length scriptBytes));
          payload = writeU32BE payload 4 0
      in bindE (typed_set payload scriptBytes 8) (\<lambda>payload.
         let headerBuf = replicate HEADER_SIZE 0;
             headerBuf = writeU32BE headerBuf 0 UIMAGE_MAGIC;
             headerBuf = writeU32BE headerBuf 4 0;
             headerBuf = writeU32BE headerBuf 8 (now div 1000);
             headerBuf = writeU32BE headerBuf 12 (int (length payload));
             loadAddr = field_or (baseHeader args) p_loadAddr (defaultLoadAddr args);
             entryPoint = field_or (baseHeader args) p_entryPoint (defaultEntryPoint args);
             headerBuf = writeU32BE headerBuf 16 loadAddr;
             headerBuf = writeU32BE headerBuf 20 entryPoint;
             dcrc = crc32 payload;
             headerBuf = writeU32BE headerBuf 24 dcrc;
             headerBuf = headerBuf[28 := ucast (to_uint32 (field_or (baseHeader args) p_os 5) AND 0xff)];
             headerBuf = headerBuf[29 := ucast (to_uint32 (field_or (baseHeader args) p_arch 2) AND 0xff)];
             headerBuf = headerBuf[30 := ucast (to_uint32 (field_or (baseHeader args) p_type TYPE_SCRIPT) AND 0xff)];
             headerBuf = headerBuf[31 := ucast (to_uint32 (field_or (baseHeader args) p_comp COMP_NONE) AND 0xff)];
             name = field_or (baseHeader args) p_name (defaultName args)
         in bindE (encodeName name) (\<lambda>nameBytes.
            bindE (typed_set headerBuf nameBytes 32) (\<lambda>headerBuf.
            let hcrc = crc32 headerBuf;
                headerBuf = writeU32BE headerBuf 4 hcrc;
                out = replicate (HEADER_SIZE + length payload) 0
            in bindE (typed_set out headerBuf 0) (\<lambda>out.
               typed_set out payload HEADER_SIZE)))))"

section \<open>The layout of a built container\<close>

text \<open>The four bytes \<open>writeU32BE\<close> stores, the low byte stored at offsets 28 to 31, and
  the byte sequences the builder puts together; the builder is shown below to produce
  exactly these.\<close>

definition be32 :: "int \<Rightarrow> byte list" where
  "be32 v = (let w = to_uint32 v in
     [ucast (drop_bit 24 w AND 0xff), ucast (drop_bit 16 w AND 0xff),
      ucast (drop_bit 8 w AND 0xff), ucast (w AND 0xff)])"

definition payload_bytes :: "jsstring \<Rightarrow> byte list" where
  "payload_bytes s =
     be32 (int (length (TextEncoder_encode s))) @ be32 0 @ TextEncoder_encode s"

definition name_field :: "jsstring \<Rightarrow> byte list" where
  "name_field nm =
     take 32 (TextEncoder_encode nm) @ replicate (32 - length (TextEncoder_encode nm)) 0"

definition low8 :: "int \<Rightarrow> byte" where
  "low8 v = ucast (to_uint32 v AND 0xff)"

definition header_bytes :: "int \<Rightarrow> build_args \<Rightarrow> int \<Rightarrow> byte list" where
  "header_bytes now args h =
     be32 UIMAGE_MAGIC @ be32 h @ be32 (now div 1000) @
     be32 (int (length (payload_bytes (script args)))) @
     be32 (field_or (baseHeader args) p_loadAddr (defaultLoadAddr args)) @
     be32 (field_or (baseHeader args) p_entryPoint (defaultEntryPoint args)) @
     be32 (crc32 (payload_bytes (script args))) @
     [low8 (field_or (baseHeader args) p_os 5),
      low8 (field_or (baseHeader args) p_arch 2),
      low8 (field_or (baseHeader args) p_type TYPE_SCRIPT),
      low8 (field_or (baseHeader args) p_comp COMP_NONE)] @
     name_field (field_or (baseHeader args) p_name (defaultName args))"

text \<open>The arguments of a build without a previous header, with the defaults the editor
  passes.\<close>

definition default_args :: "jsstring \<Rightarrow> build_args" where
  "default_args s = \<lparr>script = s, baseHeader = None, defaultName = js_literal ''boot script'',
     defaultLoadAddr = 0, defaultEntryPoint = 0\<rparr>"

section \<open>What the parser reads\<close>

text \<open>The header record, the payload area and the two checksum comparisons of
  \<open>parseLegacyUImage\<close>, named so that its result can be stated branch by branch.\<close>

definition header_of :: "byte list \<Rightarrow> UImageHeader" where
  "header_of buf =
     \<lparr>magic = readU32BE buf 0, hcrc = readU32BE buf 4, timestamp = readU32BE buf 8,
      size_h = readU32BE buf 12, loadAddr = readU32BE buf 16, entryPoint = readU32BE buf 20,
      dcrc = readU32BE buf 24, os = uint (buf ! 28), arch = uint (buf ! 29),
      type_h = uint (buf ! 30), comp_h = uint (buf ! 31),
      name = decodeName (slice_list buf 32 64)\<rparr>"

definition payload_of :: "byte list \<Rightarrow> byte list" where
  "payload_of buf = slice_list buf 64 (64 + nat (readU32BE buf 12))"

definition data_crc_ok :: "byte list \<Rightarrow> bool" where
  "data_crc_ok buf = (crc32 (payload_of buf) = readU32BE buf 24)"

definition header_crc_ok :: "byte list \<Rightarrow> bool" where
  "header_crc_ok buf = (crc32 (writeU32BE (slice_list buf 0 64) 4 0) = readU32BE buf 4)"

definition crc_warnings :: "byte list \<Rightarrow> string list" where
  "crc_warnings buf =
     (if data_crc_ok buf \<and> header_crc_ok buf then [] else [''boot.scr CRC mismatch''])"

section \<open>Example inputs and conditions on inputs\<close>

text \<open>A 64-byte buffer with the right magic, dataSize 0, headerCrc 0 and dataCrc 1.\<close>

definition short_payload_example :: "byte list" where
  "short_payload_example =
     [0x27, 0x05, 0x19, 0x56] @ replicate 20 0 @ [0, 0, 0, 1] @ replicate 36 0"

text \<open>Bit \<open>k\<close> of the byte at offset \<open>i\<close> flipped.\<close>

definition flip_bit :: "byte list \<Rightarrow> nat \<Rightarrow> nat \<Rightarrow> byte list" where
  "flip_bit buf i k = buf[i := buf ! i XOR push_bit k 1]"

text \<open>The container built from the script "x" at clock value 0 with the default
  arguments.\<close>

definition valid_example :: "byte list" where
  "valid_example =
     [0x27, 0x05, 0x19, 0x56, 0x4d, 0xaf, 0xc9, 0, 0, 0, 0, 0, 0, 0, 0, 0x09, 0, 0, 0,
      0, 0, 0, 0, 0, 0x73, 0x8b, 0x3e, 0x05, 0x05, 0x02, 0x06, 0, 0x62, 0x6f, 0x6f,
      0x74, 0x20, 0x73, 0x63, 0x72, 0x69, 0x70, 0x74, 0, 0, 0, 0, 0, 0, 0, 0, 0, 0, 0,
      0, 0, 0, 0, 0, 0, 0, 0, 0, 0, 0, 0, 0, 0x01, 0, 0, 0, 0, 0x78]"

text \<open>Strings all of whose code units are ASCII.\<close>

definition is_ascii :: "jsstring \<Rightarrow> bool" where
  "is_ascii s = list_all (\<lambda>u. u < 0x80) s"

text \<open>A previous header that carries a name and nothing else, and a build with it.\<close>

definition name_only :: "jsstring \<Rightarrow> PartialHeader" where
  "name_only nm =
     \<lparr>p_magic = None, p_hcrc = None, p_timestamp = None, p_size = None, p_loadAddr = None,
      p_entryPoint = None, p_dcrc = None, p_os = None, p_arch = None, p_type = None,
      p_comp = None, p_name = Some nm\<rparr>"

definition renamed_args :: "jsstring \<Rightarrow> build_args" where
  "renamed_args nm = (default_args [])\<lparr>baseHeader := Some (name_only nm)\<rparr>"

text \<open>Two names whose encodings are longer than 32 bytes: an ASCII one with a space as its
  32nd character, and one of 32 non-ASCII code units.\<close>

definition long_name_example :: jsstring where
  "long_name_example = js_literal ''U-Boot script for the ARM board rev2 image''"

definition mojibake_name :: jsstring where
  "mojibake_name =
     [0xC3, 0x192, 0xC6, 0x2019, 0xC3, 0x2020, 0xE2, 0x20AC, 0x2122, 0xC3, 0x192, 0xE2, 0x20AC, 0xA0, 0xC3,
      0xA2, 0xE2, 0x201A, 0xAC, 0xE2, 0x201E, 0xA2, 0xC3, 0x192, 0xC6, 0x2019, 0xC3, 0xA2, 0xE2, 0x201A, 0xAC, 0xC2]"

text \<open>Unicode scalar values; strings without unpaired surrogates; strings that begin with
  the byte order mark U+FEFF.\<close>

definition is_scalar :: "nat \<Rightarrow> bool" where
  "is_scalar cp = (cp < 0x110000 \<and> \<not> (0xD800 \<le> cp \<and> cp \<le> 0xDFFF))"

fun well_formed :: "jsstring \<Rightarrow> bool" where
  "well_formed [] = True"
| "well_formed [u] = (\<not> is_surrogate u)"
| "well_formed (u # v # us) =
     (if is_high_surrogate u \<and> is_low_surrogate v then well_formed us
      else \<not> is_surrogate u \<and> well_formed (v # us))"

definition starts_with_bom :: "jsstring \<Rightarrow> bool" where
  "starts_with_bom s = (case s of [] \<Rightarrow> False | u # us \<Rightarrow> u = 0xFEFF)"

text \<open>Valid header metadata: a name that is ASCII, fits the 32-byte field, has no NUL and
  no white space at either end (so that it is what the name decoder returns for it);
  addresses that are 32-bit values; ids that are bytes.\<close>

definition valid_name :: "jsstring \<Rightarrow> bool" where
  "valid_name nm = (is_ascii nm \<and> length nm \<le> 32 \<and> 0 \<notin> set nm \<and> trim nm = nm)"

definition valid_header :: "UImageHeader \<Rightarrow> bool" where
  "valid_header h =
     (0 \<le> loadAddr h \<and> loadAddr h < 2 ^ 32 \<and> 0 \<le> entryPoint h \<and> entryPoint h < 2 ^ 32 \<and>
      0 \<le> os h \<and> os h < 256 \<and> 0 \<le> arch h \<and> arch h < 256 \<and>
      0 \<le> type_h h \<and> type_h h < 256 \<and> 0 \<le> comp_h h \<and> comp_h h < 256 \<and>
      valid_name (name h))"

text \<open>A valid header, and the arguments with which the editor rebuilds a file it has
  parsed: the parsed header as previous header and as source of the defaults.\<close>

definition example_header :: UImageHeader where
  "example_header =
     \<lparr>magic = 0x27051956, hcrc = 0, timestamp = 0, size_h = 9, loadAddr = 0x80008000,
      entryPoint = 0x80008000, dcrc = 0, os = 5, arch = 2, type_h = 6, comp_h = 0,
      name = js_literal ''boot script''\<rparr>"

definition resave_args :: "jsstring \<Rightarrow> UImageHeader \<Rightarrow> build_args" where
  "resave_args s h =
     \<lparr>script = s, baseHeader = Some (as_partial h), defaultName = name h,
      defaultLoadAddr = loadAddr h, defaultEntryPoint = entryPoint h\<rparr>"

text \<open>The script text U+FEFF "x".\<close>

definition bom_script :: jsstring where
  "bom_script = [0xFEFF, 0x78]"

section \<open>Evaluating the checksum\<close>

text \<open>One turn of the inner loop that fills the table; a table entry is eight turns, and
  with that the checksum of a concrete buffer can be computed by rewriting.\<close>

definition crc_bit :: "u32 \<Rightarrow> u32" where
  "crc_bit c = (if c AND 1 \<noteq> 0 then 0xedb88320 XOR drop_bit 1 c else drop_bit 1 c)"

lemma crc_bit_loop_8:
  "crc_bit_loop 8 c = crc_bit (crc_bit (crc_bit (crc_bit (crc_bit (crc_bit (crc_bit (crc_bit c)))))))"
  by (simp add: eval_nat_numeral crc_bit_def)

lemma unat_low_byte: "unat ((x :: u32) AND 0xff) < 256"
proof -
  have "x AND 0xff \<le> 0xff"
    by (rule word_and_le1)
  then show ?thesis
    by (simp add: word_le_nat_alt)
qed

lemma CRC32_TABLE_nth: "CRC32_TABLE ! unat ((x :: u32) AND 0xff) = crc_bit_loop 8 (x AND 0xff)"
  using unat_low_byte [of x] by (simp add: CRC32_TABLE_def)

lemma crc32_loop_Cons:
  "crc32_loop c (d # ds) = crc32_loop (crc_bit_loop 8 ((c XOR ucast d) AND 0xff) XOR drop_bit 8 c) ds"
  by (simp add: CRC32_TABLE_nth)

lemmas crc_eval = crc32_def crc32_seed_def to_uint32_def crc32_loop_Cons crc_bit_loop_8 crc_bit_def

section \<open>Big-endian words and the builder\<close>

lemma length_be32 [simp]: "length (be32 v) = 4"
  by (simp add: be32_def Let_def)

lemma length_writeU32BE [simp]: "length (writeU32BE buf off v) = length buf"
  by (simp add: writeU32BE_def Let_def)

lemma writeU32BE_eq:
  "off + 4 \<le> length buf \<Longrightarrow> writeU32BE buf off v = take off buf @ be32 v @ drop (off + 4) buf"
  apply (rule nth_equalityI)
   apply simp
  apply (auto simp: writeU32BE_def be32_def Let_def nth_append nth_list_update nth_Cons' min_def)
  done

lemma and_ff: "(x :: u32) AND 0xff = take_bit 8 x"
proof -
  have "(0xff :: u32) = mask 8"
    by (simp add: mask_eq_exp_minus_1)
  then show ?thesis
    by (simp add: take_bit_eq_mask)
qed

lemma low_byte [simp]: "(ucast ((x :: u32) AND 0xff) :: byte) = ucast x"
  unfolding and_ff by (rule bit_word_eqI) (auto simp: bit_simps)

lemma u32_of_bytes:
  fixes w :: u32
  shows "push_bit 24 (ucast (ucast (drop_bit 24 w AND 0xff) :: byte)) OR
         push_bit 16 (ucast (ucast (drop_bit 16 w AND 0xff) :: byte)) OR
         push_bit 8 (ucast (ucast (drop_bit 8 w AND 0xff) :: byte)) OR
         (ucast (ucast (w AND 0xff) :: byte) :: u32) = w"
proof (simp, rule bit_word_eqI)
  fix n :: nat
  assume "n < LENGTH(32)"
  then consider "n < 8" | "8 \<le> n" "n < 16" | "16 \<le> n" "n < 24" | "24 \<le> n" "n < 32"
    by fastforce
  then show "bit (push_bit 24 (ucast (ucast (drop_bit 24 w) :: byte)) OR
         push_bit 16 (ucast (ucast (drop_bit 16 w) :: byte)) OR
         push_bit 8 (ucast (ucast (drop_bit 8 w) :: byte)) OR
         (ucast (ucast w :: byte) :: u32)) n = bit w n"
    by cases (auto simp: bit_simps)
qed

lemma byte3_of_u32:
  fixes a b c d :: byte
  shows "(ucast (drop_bit 24 (push_bit 24 (ucast a) OR push_bit 16 (ucast b) OR push_bit 8 (ucast c) OR (ucast d :: u32)) AND 0xff) :: byte) = a"
  by (simp, rule bit_word_eqI, auto simp: bit_simps dest: bit_imp_le_length)

lemma byte2_of_u32:
  fixes a b c d :: byte
  shows "(ucast (drop_bit 16 (push_bit 24 (ucast a) OR push_bit 16 (ucast b) OR push_bit 8 (ucast c) OR (ucast d :: u32)) AND 0xff) :: byte) = b"
  by (simp, rule bit_word_eqI, auto simp: bit_simps dest: bit_imp_le_length)

lemma byte1_of_u32:
  fixes a b c d :: byte
  shows "(ucast (drop_bit 8 (push_bit 24 (ucast a) OR push_bit 16 (ucast b) OR push_bit 8 (ucast c) OR (ucast d :: u32)) AND 0xff) :: byte) = c"
  by (simp, rule bit_word_eqI, auto simp: bit_simps dest: bit_imp_le_length)

lemma byte0_of_u32:
  fixes a b c d :: byte
  shows "(ucast ((push_bit 24 (ucast a) OR push_bit 16 (ucast b) OR push_bit 8 (ucast c) OR (ucast d :: u32)) AND 0xff) :: byte) = d"
  by (simp, rule bit_word_eqI, auto simp: bit_simps dest: bit_imp_le_length)

lemma set_byte_eq: "i < length buf \<Longrightarrow> buf[i := x] = take i buf @ [x] @ drop (Suc i) buf"
  by (simp add: upd_conv_take_nth_drop)

lemma length_payload_bytes [simp]: "length (payload_bytes s) = 8 + length (TextEncoder_encode s)"
  by (simp add: payload_bytes_def)

lemma length_name_field [simp]: "length (name_field nm) = 32"
  by (simp add: name_field_def)

lemma length_header_bytes [simp]: "length (header_bytes now args h) = 64"
  by (simp add: header_bytes_def)

lemma encodeName_eq: "encodeName nm = Inr (name_field nm)"
  by (simp add: encodeName_def typed_set_def slice_list_def name_field_def Let_def min_def)

lemma build_payload:
  "typed_set (writeU32BE (writeU32BE (replicate (8 + length sb) 0) 0 (int (length sb))) 4 0) sb 8
   = Inr (be32 (int (length sb)) @ be32 0 @ sb)"
  by (simp add: typed_set_def writeU32BE_eq)

lemma build_eq:
  "buildLegacyScriptImage now args =
     Inr (header_bytes now args (crc32 (header_bytes now args 0)) @ payload_bytes (script args))"
  apply (simp add: buildLegacyScriptImage_def Let_def build_payload bindE_def encodeName_eq HEADER_SIZE_def)
  apply (simp add: writeU32BE_eq set_byte_eq typed_set_def header_bytes_def payload_bytes_def low8_def)
  done

lemma be32_nth:
  "be32 v ! 0 = ucast (drop_bit 24 (to_uint32 v) AND 0xff)"
  "be32 v ! 1 = ucast (drop_bit 16 (to_uint32 v) AND 0xff)"
  "be32 v ! 2 = ucast (drop_bit 8 (to_uint32 v) AND 0xff)"
  "be32 v ! 3 = ucast (to_uint32 v AND 0xff)"
  by (simp_all add: be32_def Let_def del: low_byte)

lemma readU32BE_be32:
  assumes "take 4 (drop off buf) = be32 v"
  shows "readU32BE buf off = uint (to_uint32 v)"
proof -
  have len: "off + 4 \<le> length buf"
  proof -
    have "length (take 4 (drop off buf)) = 4"
      by (simp add: assms)
    then show ?thesis
      by simp
  qed
  have nth: "buf ! (off + i) = be32 v ! i" if "i < 4" for i
  proof -
    have "take 4 (drop off buf) ! i = buf ! (off + i)"
      using that len by simp
    then show ?thesis
      by (simp add: assms)
  qed
  have "byte_at buf off = be32 v ! 0" "byte_at buf (off + 1) = be32 v ! 1"
    "byte_at buf (off + 2) = be32 v ! 2" "byte_at buf (off + 3) = be32 v ! 3"
    using len nth [of 0] nth [of 1] nth [of 2] nth [of 3] by (simp_all add: byte_at_def)
  then show ?thesis
    by (simp only: readU32BE_def be32_nth u32_of_bytes)
qed

lemma uint_crc32 [simp]: "uint (to_uint32 (crc32 data)) = crc32 data"
  by (simp add: crc32_def crc32_seed_def to_uint32_def)

lemma uint_to_uint32: "0 \<le> v \<Longrightarrow> v < 2 ^ 32 \<Longrightarrow> uint (to_uint32 v) = v"
  by (simp add: to_uint32_def uint_word_of_int take_bit_eq_mod)

section \<open>Built containers\<close>

lemmas text_eval = js_literal_def TextEncoder_encode_def utf8_bytes_def lone_unit_def
  is_surrogate_def is_high_surrogate_def is_low_surrogate_def

lemma enc_x: "TextEncoder_encode (js_literal ''x'') = [0x78]"
  by (simp add: text_eval)

lemma be32_bytes:
  "be32 v = [ucast (drop_bit 24 (to_uint32 v)), ucast (drop_bit 16 (to_uint32 v)),
             ucast (drop_bit 8 (to_uint32 v)), ucast (to_uint32 v)]"
  by (simp add: be32_def Let_def)

lemmas be32_eval = be32_bytes to_uint32_def

lemma payload_x: "payload_bytes (js_literal ''x'') = [0,0,0,1,0,0,0,0,0x78]"
  by (simp add: payload_bytes_def enc_x be32_eval)

lemma enc_boot: "TextEncoder_encode (js_literal ''boot script'') =
   [0x62, 0x6f, 0x6f, 0x74, 0x20, 0x73, 0x63, 0x72, 0x69, 0x70, 0x74]"
  by (simp add: text_eval)

lemma crc_payload_x: "crc32 [0,0,0,1,0,0,0,0,0x78] = 0x738b3e05"
  by (simp add: crc_eval del: crc32_loop.simps(2))

lemma name_boot: "name_field (js_literal ''boot script'') =
   [0x62, 0x6f, 0x6f, 0x74, 0x20, 0x73, 0x63, 0x72, 0x69, 0x70, 0x74, 0,0,0,0,0, 0,0,0,0,0,0,0,0, 0,0,0,0,0,0,0,0]"
  unfolding name_field_def enc_boot by (simp add: eval_nat_numeral)

lemma header_x_0: "header_bytes 0 (default_args (js_literal ''x'')) 0 =
  [0x27,0x05,0x19,0x56, 0,0,0,0, 0,0,0,0, 0,0,0,9, 0,0,0,0, 0,0,0,0, 0x73,0x8b,0x3e,0x05, 5,2,6,0,
   0x62, 0x6f, 0x6f, 0x74, 0x20, 0x73, 0x63, 0x72, 0x69, 0x70, 0x74, 0,0,0,0,0, 0,0,0,0,0,0,0,0, 0,0,0,0,0,0,0,0]"
  by (simp add: header_bytes_def default_args_def field_or_def payload_x crc_payload_x name_boot
      be32_eval low8_def UIMAGE_MAGIC_def TYPE_SCRIPT_def COMP_NONE_def)

lemma hcrc_x_0: "crc32 (header_bytes 0 (default_args (js_literal ''x'')) 0) = 0x4dafc900"
  unfolding header_x_0
  by (simp add: crc_eval del: crc32_loop.simps(2))

lemma read_header:
  "readU32BE (header_bytes now args h @ p) 0 = uint (to_uint32 UIMAGE_MAGIC)"
  "readU32BE (header_bytes now args h @ p) 4 = uint (to_uint32 h)"
  "readU32BE (header_bytes now args h @ p) 8 = uint (to_uint32 (now div 1000))"
  "readU32BE (header_bytes now args h @ p) 12 = uint (to_uint32 (int (length (payload_bytes (script args)))))"
  "readU32BE (header_bytes now args h @ p) 16 =
     uint (to_uint32 (field_or (baseHeader args) p_loadAddr (defaultLoadAddr args)))"
  "readU32BE (header_bytes now args h @ p) 20 =
     uint (to_uint32 (field_or (baseHeader args) p_entryPoint (defaultEntryPoint args)))"
  "readU32BE (header_bytes now args h @ p) 24 = uint (to_uint32 (crc32 (payload_bytes (script args))))"
  by (rule readU32BE_be32; simp add: header_bytes_def)+

lemma header_bytes_nth:
  "(header_bytes now args h @ p) ! 28 = low8 (field_or (baseHeader args) p_os 5)"
  "(header_bytes now args h @ p) ! 29 = low8 (field_or (baseHeader args) p_arch 2)"
  "(header_bytes now args h @ p) ! 30 = low8 (field_or (baseHeader args) p_type TYPE_SCRIPT)"
  "(header_bytes now args h @ p) ! 31 = low8 (field_or (baseHeader args) p_comp COMP_NONE)"
  by (simp_all add: header_bytes_def nth_append)

lemma header_bytes_name:
  "slice_list (header_bytes now args h @ p) 32 64 =
     name_field (field_or (baseHeader args) p_name (defaultName args))"
  by (simp add: header_bytes_def slice_list_def)

lemma header_bytes_zero_crc:
  "writeU32BE (header_bytes now args h) 4 0 = header_bytes now args 0"
  by (simp add: writeU32BE_eq) (simp add: header_bytes_def)

lemma read_payload:
  "readU32BE (header_bytes now args h @ payload_bytes s) 64 = uint (to_uint32 (int (length (TextEncoder_encode s))))"
  "readU32BE (header_bytes now args h @ payload_bytes s) 68 = uint (to_uint32 0)"
  by (rule readU32BE_be32; simp add: payload_bytes_def)+

lemma uint_magic: "uint (to_uint32 UIMAGE_MAGIC) = UIMAGE_MAGIC"
  by (simp add: UIMAGE_MAGIC_def to_uint32_def)

lemma uint_size:
  "8 + n < (2::nat) ^ 32 \<Longrightarrow> uint (to_uint32 (int (8 + n))) = int (8 + n)"
  by (rule uint_to_uint32) simp_all

lemma slice_header: "slice_list (header_bytes now args h @ p) 0 64 = header_bytes now args h"
  by (simp add: slice_list_def)

lemma slice_payload: "slice_list (header_bytes now args h @ p) 64 (64 + length p) = p"
  by (simp add: slice_list_def)

lemma slice_script: "slice_list (payload_bytes s) 8 (length (payload_bytes s)) = TextEncoder_encode s"
  by (simp add: slice_list_def payload_bytes_def)

lemma parse_build:
  assumes "8 + length (TextEncoder_encode (script args)) < 2 ^ 32"
  shows "parseLegacyUImage
           (header_bytes now args (crc32 (header_bytes now args 0)) @ payload_bytes (script args)) =
         ([], Inr (\<lparr>magic = UIMAGE_MAGIC,
                    hcrc = crc32 (header_bytes now args 0),
                    timestamp = uint (to_uint32 (now div 1000)),
                    size_h = int (8 + length (TextEncoder_encode (script args))),
                    loadAddr = uint (to_uint32 (field_or (baseHeader args) p_loadAddr (defaultLoadAddr args))),
                    entryPoint = uint (to_uint32 (field_or (baseHeader args) p_entryPoint (defaultEntryPoint args))),
                    dcrc = crc32 (payload_bytes (script args)),
                    os = uint (low8 (field_or (baseHeader args) p_os 5)),
                    arch = uint (low8 (field_or (baseHeader args) p_arch 2)),
                    type_h = uint (low8 (field_or (baseHeader args) p_type TYPE_SCRIPT)),
                    comp_h = uint (low8 (field_or (baseHeader args) p_comp COMP_NONE)),
                    name = decodeName (name_field (field_or (baseHeader args) p_name (defaultName args)))\<rparr>,
                   TextDecoder_utf8 (TextEncoder_encode (script args))))"
proof -
  let ?p = "payload_bytes (script args)"
  have "uint (to_uint32 (int (length ?p))) = int (length ?p)"
    using uint_size [OF assms] by simp
  then have sz: "unat (to_uint32 (int (length ?p))) = length ?p"
    by (metis nat_int nat_uint_eq)
  have pl: "slice_list (header_bytes now args h @ ?p) 64 (64 + length ?p) = ?p" for h
    by (rule slice_payload)
  show ?thesis
    unfolding parseLegacyUImage_def
    by (simp add: Let_def read_header header_bytes_nth header_bytes_name HEADER_SIZE_def
        uint_magic sz pl slice_header header_bytes_zero_crc slice_script
        del: length_payload_bytes)
      (use uint_size [OF assms] in simp)
qed

text \<open>C9: the container \<open>build\<close> emits for a script whose UTF-8 encoding has \<open>n\<close> bytes
  is \<open>72 + n\<close> bytes long, its reserved field at offset 68 is 0, the script bytes stand at
  offsets 72 to \<open>72 + n\<close>, its dataSize field at offset 12 is \<open>8 + n\<close> and its
  script_length field at offset 64 is \<open>n\<close> (so \<open>8 + scriptLength = dataSize\<close>).  The two
  length fields are 32 bits wide, so for them \<open>8 + n\<close> has to fit; a JavaScript string,
  whose length the platform bounds by \<open>2 ^ 30\<close> code units of at most three bytes each,
  always does.\<close>

theorem build_layout:
  "\<exists>out. buildLegacyScriptImage now args = Inr out \<and>
     length out = 72 + length (TextEncoder_encode (script args)) \<and>
     readU32BE out 68 = 0 \<and>
     slice_list out 72 (72 + length (TextEncoder_encode (script args))) =
       TextEncoder_encode (script args) \<and>
     (8 + length (TextEncoder_encode (script args)) < 2 ^ 32 \<longrightarrow>
        readU32BE out 12 = 8 + int (length (TextEncoder_encode (script args))) \<and>
        readU32BE out 64 = int (length (TextEncoder_encode (script args))) \<and>
        8 + readU32BE out 64 = readU32BE out 12)"
proof -
  let ?n = "length (TextEncoder_encode (script args))"
  let ?out = "header_bytes now args (crc32 (header_bytes now args 0)) @ payload_bytes (script args)"
  have "length ?out = 72 + ?n"
    by simp
  moreover have "readU32BE ?out 68 = 0"
    by (simp add: read_payload to_uint32_def)
  moreover have "slice_list ?out 72 (72 + ?n) = TextEncoder_encode (script args)"
    by (simp add: slice_list_def payload_bytes_def)
  moreover have "readU32BE ?out 12 = 8 + int ?n \<and> readU32BE ?out 64 = int ?n"
    if fits: "8 + ?n < 2 ^ 32"
  proof -
    have "uint (to_uint32 (int ?n)) = int ?n"
      using fits by (intro uint_to_uint32) simp_all
    then show ?thesis
      using uint_size [OF fits] by (simp add: read_header read_payload)
  qed
  ultimately show ?thesis
    by (simp add: build_eq)
qed

theorem build_layout_witness:
  "\<exists>out. buildLegacyScriptImage 0 (default_args (js_literal ''x'')) = Inr out \<and>
     length out = 73 \<and> readU32BE out 68 = 0 \<and> slice_list out 72 73 = [0x78] \<and>
     readU32BE out 12 = 9 \<and> readU32BE out 64 = 1 \<and> 8 + readU32BE out 64 = readU32BE out 12"
  using build_layout [of 0 "default_args (js_literal ''x'')"]
  by (simp add: default_args_def enc_x)

lemma TextDecoder_x: "TextDecoder_utf8 [0x78] = js_literal ''x''"
  by (simp add: TextDecoder_utf8_def utf8_handle_def utf8_lead_def utf8_init_def strip_bom_def
      from_code_point_def js_literal_def)

text \<open>C10: every container \<open>build\<close> emits is checksum-valid: it is a 64-byte header that
  begins with the magic number, followed by the payload; the crc32 of bytes 64 to the end is
  the dataCrc field at offset 24, the crc32 of the 64 header bytes with the headerCrc field
  zeroed is the headerCrc field at offset 4, and parsing the container succeeds, returns the
  decoding of the script bytes and shows no warning (the parser finds the payload through
  the 32-bit dataSize field, which the payload length has to fit).\<close>

theorem build_checksum_valid:
  "\<exists>out. buildLegacyScriptImage now args = Inr out \<and>
     length out = 72 + length (TextEncoder_encode (script args)) \<and>
     readU32BE out 0 = 0x27051956 \<and>
     crc32 (slice_list out 64 (length out)) = readU32BE out 24 \<and>
     crc32 (writeU32BE (slice_list out 0 64) 4 0) = readU32BE out 4 \<and>
     (8 + length (TextEncoder_encode (script args)) < 2 ^ 32 \<longrightarrow>
        (\<exists>h. parseLegacyUImage out =
           ([], Inr (h, TextDecoder_utf8 (TextEncoder_encode (script args))))))"
proof -
  let ?out = "header_bytes now args (crc32 (header_bytes now args 0)) @ payload_bytes (script args)"
  have "length ?out = 72 + length (TextEncoder_encode (script args))"
    by simp
  moreover have "readU32BE ?out 0 = 0x27051956"
    by (simp add: read_header uint_magic) (simp add: UIMAGE_MAGIC_def)
  moreover have "crc32 (slice_list ?out 64 (length ?out)) = readU32BE ?out 24"
    by (simp add: read_header slice_list_def)
  moreover have "crc32 (writeU32BE (slice_list ?out 0 64) 4 0) = readU32BE ?out 4"
    by (simp add: read_header slice_header header_bytes_zero_crc)
  moreover have "\<exists>h. parseLegacyUImage ?out =
      ([], Inr (h, TextDecoder_utf8 (TextEncoder_encode (script args))))"
    if "8 + length (TextEncoder_encode (script args)) < 2 ^ 32"
    by (simp add: parse_build [OF that])
  ultimately show ?thesis
    unfolding build_eq by blast
qed

theorem build_checksum_valid_witness:
  "\<exists>out. buildLegacyScriptImage 0 (default_args (js_literal ''x'')) = Inr out \<and>
     length out = 73 \<and>
     readU32BE out 0 = 0x27051956 \<and>
     crc32 (slice_list out 64 (length out)) = readU32BE out 24 \<and>
     crc32 (writeU32BE (slice_list out 0 64) 4 0) = readU32BE out 4 \<and>
     (\<exists>h. parseLegacyUImage out = ([], Inr (h, js_literal ''x'')))"
  using build_checksum_valid [of 0 "default_args (js_literal ''x'')"]
  by (simp add: default_args_def enc_x TextDecoder_x)

lemma decode_boot: "decodeName (name_field (js_literal ''boot script'')) = js_literal ''boot script''"
  unfolding name_boot
  by (simp add: decodeName_def slice_list_def TextDecoder_ascii_def windows_1252_def trim_def
      is_js_space_def js_literal_def)

text \<open>C7: built without a previous header and with the defaults "boot script", 0 and 0, the
  container has osType 5, archType 2, imageType 6 and compressionType 0 at offsets 28 to
  31, and its name field decodes to "boot script"; this holds for every script and every
  clock value.\<close>

theorem build_default_fields:
  "\<exists>out. buildLegacyScriptImage now (default_args s) = Inr out \<and>
     uint (out ! 28) = 5 \<and> uint (out ! 29) = 2 \<and> uint (out ! 30) = 6 \<and> uint (out ! 31) = 0 \<and>
     decodeName (slice_list out 32 64) = js_literal ''boot script''"
proof -
  let ?a = "default_args s"
  let ?out = "header_bytes now ?a (crc32 (header_bytes now ?a 0)) @ payload_bytes s"
  have "uint (?out ! 28) = 5" "uint (?out ! 29) = 2" "uint (?out ! 30) = 6" "uint (?out ! 31) = 0"
    by (simp_all add: header_bytes_nth default_args_def field_or_def low8_def to_uint32_def
        TYPE_SCRIPT_def COMP_NONE_def)
  moreover have "decodeName (slice_list ?out 32 64) = js_literal ''boot script''"
    by (simp add: header_bytes_name default_args_def field_or_def decode_boot)
  ultimately show ?thesis
    by (simp add: build_eq default_args_def)
qed

lemma header_x_1: "header_bytes 1000 (default_args (js_literal ''x'')) 0 =
  [0x27,0x05,0x19,0x56, 0,0,0,0, 0,0,0,1, 0,0,0,9, 0,0,0,0, 0,0,0,0, 0x73,0x8b,0x3e,0x05, 5,2,6,0,
   0x62, 0x6f, 0x6f, 0x74, 0x20, 0x73, 0x63, 0x72, 0x69, 0x70, 0x74, 0,0,0,0,0, 0,0,0,0,0,0,0,0, 0,0,0,0,0,0,0,0]"
  by (simp add: header_bytes_def default_args_def field_or_def payload_x crc_payload_x name_boot
      be32_eval low8_def UIMAGE_MAGIC_def TYPE_SCRIPT_def COMP_NONE_def)

lemma hcrc_x_1: "crc32 (header_bytes 1000 (default_args (js_literal ''x'')) 0) = 0x33777941"
  unfolding header_x_1
  by (simp add: crc_eval del: crc32_loop.simps(2))

lemma slice_hcrc: "slice_list (header_bytes now args h @ p) 4 8 = be32 h"
  by (simp add: slice_list_def header_bytes_def)

text \<open>C1, as stated, fails: two builds of the script "x" with the default arguments, one at
  clock value 0 and one at 1000 ms, differ in the headerCrc field at offsets 4 to 7, since
  that checksum covers the timestamp.\<close>

theorem rebuild_header_crc_differs:
  "slice_list (projr (buildLegacyScriptImage 0 (default_args (js_literal ''x'')))) 4 8 =
     [0x4d, 0xaf, 0xc9, 0x00] \<and>
   slice_list (projr (buildLegacyScriptImage 1000 (default_args (js_literal ''x'')))) 4 8 =
     [0x33, 0x77, 0x79, 0x41]"
  by (simp add: build_eq slice_hcrc hcrc_x_0 hcrc_x_1 be32_eval)

text \<open>C1, amended: two builds with identical inputs both return a container of
  \<open>72 + n\<close> bytes, \<open>n\<close> the length of the encoded script, and the two are equal at every
  offset outside the headerCrc field (4 to 7) and the timestamp field (8 to 11).\<close>

theorem rebuild_equal_outside_crc_and_timestamp:
  "\<exists>out1 out2. buildLegacyScriptImage now1 args = Inr out1 \<and>
     buildLegacyScriptImage now2 args = Inr out2 \<and>
     length out1 = 72 + length (TextEncoder_encode (script args)) \<and>
     length out2 = 72 + length (TextEncoder_encode (script args)) \<and>
     take 4 out1 = take 4 out2 \<and> drop 12 out1 = drop 12 out2"
  by (simp add: build_eq) (simp add: header_bytes_def)

section \<open>Known test vectors\<close>

text \<open>C6: with the default seed, \<open>crc32\<close> of the empty byte sequence is 0 and \<open>crc32\<close> of
  the ASCII bytes of "123456789" is 0xCBF43926, the reference values of the IEEE 802.3
  CRC-32.\<close>

theorem crc32_test_vectors:
  "crc32 [] = 0x00000000 \<and>
   crc32 [0x31, 0x32, 0x33, 0x34, 0x35, 0x36, 0x37, 0x38, 0x39] = 0xCBF43926"
  by (simp add: crc32_def crc32_seed_def to_uint32_def crc32_loop_Cons crc_bit_loop_8 crc_bit_def
        del: crc32_loop.simps(2))

section \<open>The parser\<close>

lemma parse_eq:
  "parseLegacyUImage buf =
     (if length buf < 64 then ([], Inl TooSmall)
      else if readU32BE buf 0 \<noteq> UIMAGE_MAGIC then ([], Inl BadMagic)
      else if length buf < 64 + nat (readU32BE buf 12) then ([], Inl PayloadOverrun)
      else if nat (readU32BE buf 12) < 8 then (crc_warnings buf, Inl MissingWrapper)
      else (crc_warnings buf, Inr (header_of buf, TextDecoder_utf8 (drop 8 (payload_of buf)))))"
  by (auto simp: parseLegacyUImage_def Let_def HEADER_SIZE_def header_of_def payload_of_def
      crc_warnings_def data_crc_ok_def header_crc_ok_def slice_list_def)

text \<open>C3: \<open>parse\<close> fails exactly when the buffer is shorter than 64 bytes, or its first four
  bytes read big-endian are not 0x27051956, or 64 + dataSize exceeds its length, or its
  payload area is shorter than 8 bytes; the first of these that holds decides the error
  (TooSmall, BadMagic, PayloadOverrun, MissingWrapper).  On every other buffer it returns
  the decoded header and the script text, whatever the checksums are.\<close>

theorem parse_structural_errors:
  "((\<exists>e. snd (parseLegacyUImage buf) = Inl e) \<longleftrightarrow>
      (length buf < 64 \<or> readU32BE buf 0 \<noteq> 0x27051956 \<or>
       length buf < 64 + nat (readU32BE buf 12) \<or> nat (readU32BE buf 12) < 8)) \<and>
   (length buf < 64 \<longrightarrow> snd (parseLegacyUImage buf) = Inl TooSmall) \<and>
   (64 \<le> length buf \<and> readU32BE buf 0 \<noteq> 0x27051956 \<longrightarrow>
      snd (parseLegacyUImage buf) = Inl BadMagic) \<and>
   (64 \<le> length buf \<and> readU32BE buf 0 = 0x27051956 \<and>
    length buf < 64 + nat (readU32BE buf 12) \<longrightarrow>
      snd (parseLegacyUImage buf) = Inl PayloadOverrun) \<and>
   (64 \<le> length buf \<and> readU32BE buf 0 = 0x27051956 \<and>
    64 + nat (readU32BE buf 12) \<le> length buf \<and> nat (readU32BE buf 12) < 8 \<longrightarrow>
      snd (parseLegacyUImage buf) = Inl MissingWrapper) \<and>
   (64 \<le> length buf \<and> readU32BE buf 0 = 0x27051956 \<and>
    64 + nat (readU32BE buf 12) \<le> length buf \<and> 8 \<le> nat (readU32BE buf 12) \<longrightarrow>
      snd (parseLegacyUImage buf) =
        Inr (header_of buf, TextDecoder_utf8 (slice_list buf 72 (64 + nat (readU32BE buf 12)))))"
proof -
  have "drop 8 (payload_of buf) = slice_list buf 72 (64 + nat (readU32BE buf 12))"
    by (simp add: payload_of_def slice_list_def drop_take)
  then show ?thesis
    by (simp add: parse_eq UIMAGE_MAGIC_def)
qed

lemmas read_eval = readU32BE_def byte_at_def nth_append

theorem parse_structural_errors_witness:
  "snd (parseLegacyUImage (replicate 10 0)) = Inl TooSmall \<and>
   snd (parseLegacyUImage (replicate 64 0)) = Inl BadMagic \<and>
   snd (parseLegacyUImage
     ([0x27, 0x05, 0x19, 0x56] @ replicate 8 0 @ [0, 0, 0, 9] @ replicate 48 0 @ replicate 8 0)) =
     Inl PayloadOverrun \<and>
   snd (parseLegacyUImage
     ([0x27, 0x05, 0x19, 0x56] @ replicate 8 0 @ [0, 0, 0, 4] @ replicate 48 0 @ replicate 4 0)) =
     Inl MissingWrapper \<and>
   (\<exists>h. snd (parseLegacyUImage
     ([0x27, 0x05, 0x19, 0x56] @ replicate 8 0 @ [0, 0, 0, 9] @ replicate 48 0 @
      [0, 0, 0, 1, 0, 0, 0, 0, 0x78])) = Inr (h, js_literal ''x''))"
proof -
  let ?b3 = "[0x27, 0x05, 0x19, 0x56] @ replicate 8 0 @ [0, 0, 0, 9] @ replicate 48 0 @ replicate 8 (0::byte)"
  let ?b4 = "[0x27, 0x05, 0x19, 0x56] @ replicate 8 0 @ [0, 0, 0, 4] @ replicate 48 0 @ replicate 4 (0::byte)"
  let ?b5 = "[0x27, 0x05, 0x19, 0x56] @ replicate 8 0 @ [0, 0, 0, 9] @ replicate 48 0 @
      [0, 0, 0, 1, 0, 0, 0, 0, 0x78::byte]"
  have "snd (parseLegacyUImage (replicate 10 0)) = Inl TooSmall"
    using parse_structural_errors [of "replicate 10 0"] by simp
  moreover have "snd (parseLegacyUImage (replicate 64 0)) = Inl BadMagic"
    using parse_structural_errors [of "replicate 64 0"] by (simp add: read_eval)
  moreover have "snd (parseLegacyUImage ?b3) = Inl PayloadOverrun"
    using parse_structural_errors [of ?b3] by (simp add: read_eval)
  moreover have "snd (parseLegacyUImage ?b4) = Inl MissingWrapper"
    using parse_structural_errors [of ?b4] by (simp add: read_eval)
  moreover have "\<exists>h. snd (parseLegacyUImage ?b5) = Inr (h, js_literal ''x'')"
    using parse_structural_errors [of ?b5] by (simp add: read_eval slice_list_def TextDecoder_x)
  ultimately show ?thesis
    by blast
qed

lemma short_payload_example_header:
  "writeU32BE (slice_list short_payload_example 0 64) 4 0 =
     [0x27, 0x05, 0x19, 0x56, 0, 0, 0, 0, 0, 0, 0, 0, 0, 0, 0, 0, 0, 0, 0, 0, 0, 0, 0, 0,
      0, 0, 0, 0x01, 0, 0, 0, 0, 0, 0, 0, 0, 0, 0, 0, 0, 0, 0, 0, 0, 0, 0, 0, 0, 0, 0, 0,
      0, 0, 0, 0, 0, 0, 0, 0, 0, 0, 0, 0, 0]"
  by (simp add: short_payload_example_def slice_list_def writeU32BE_def to_uint32_def
      eval_nat_numeral)

lemma short_payload_example_hcrc:
  "crc32 (writeU32BE (slice_list short_payload_example 0 64) 4 0) = 0xb359040a"
  unfolding short_payload_example_header
  by (simp add: crc_eval del: crc32_loop.simps(2))

lemma short_payload_example_reads:
  "length short_payload_example = 64"
  "readU32BE short_payload_example 0 = 0x27051956"
  "readU32BE short_payload_example 4 = 0"
  "readU32BE short_payload_example 12 = 0"
  "readU32BE short_payload_example 24 = 1"
  by (simp_all add: short_payload_example_def read_eval)

lemma short_payload_example_dcrc: "crc32 (payload_of short_payload_example) = 0"
  by (simp add: payload_of_def short_payload_example_reads slice_list_def crc32_def crc32_seed_def
      to_uint32_def)

text \<open>C5, as stated, fails: this 64-byte buffer has the right magic, dataSize 0 and stored
  checksums that both differ from the recomputed ones; the parser shows the checksum warning
  and then fails with MissingWrapper, since it compares the checksums before it looks at
  the length of the payload.\<close>

theorem missing_wrapper_after_warning:
  "length short_payload_example = 64 \<and>
   readU32BE short_payload_example 0 = 0x27051956 \<and>
   readU32BE short_payload_example 12 = 0 \<and>
   crc32 (payload_of short_payload_example) \<noteq> readU32BE short_payload_example 24 \<and>
   crc32 (writeU32BE (slice_list short_payload_example 0 64) 4 0) \<noteq>
     readU32BE short_payload_example 4 \<and>
   parseLegacyUImage short_payload_example = ([''boot.scr CRC mismatch''], Inl MissingWrapper)"
  by (simp add: parse_eq short_payload_example_reads short_payload_example_dcrc
      short_payload_example_hcrc crc_warnings_def data_crc_ok_def header_crc_ok_def UIMAGE_MAGIC_def)

text \<open>C5, amended: a parse that fails with TooSmall, BadMagic or PayloadOverrun has shown no
  warning; a parse that fails with MissingWrapper has shown one warning when a stored
  checksum differs from the recomputed one, and none otherwise.\<close>

theorem parse_error_warnings:
  "(snd (parseLegacyUImage buf) = Inl TooSmall \<or> snd (parseLegacyUImage buf) = Inl BadMagic \<or>
    snd (parseLegacyUImage buf) = Inl PayloadOverrun \<longrightarrow> fst (parseLegacyUImage buf) = []) \<and>
   (snd (parseLegacyUImage buf) = Inl MissingWrapper \<longrightarrow>
      fst (parseLegacyUImage buf) =
        (if data_crc_ok buf \<and> header_crc_ok buf then [] else [''boot.scr CRC mismatch'']))"
  by (simp add: parse_eq crc_warnings_def)

theorem parse_error_warnings_witness:
  "fst (parseLegacyUImage (replicate 10 0)) = [] \<and>
   fst (parseLegacyUImage short_payload_example) = [''boot.scr CRC mismatch'']"
proof -
  have "snd (parseLegacyUImage (replicate 10 0)) = Inl TooSmall"
    by (simp add: parse_eq)
  then have "fst (parseLegacyUImage (replicate 10 0)) = []"
    using parse_error_warnings [of "replicate 10 0"] by simp
  moreover have "snd (parseLegacyUImage short_payload_example) = Inl MissingWrapper"
    by (simp add: parse_eq short_payload_example_reads UIMAGE_MAGIC_def)
  then have "fst (parseLegacyUImage short_payload_example) = [''boot.scr CRC mismatch'']"
    using parse_error_warnings [of short_payload_example]
    by (simp add: data_crc_ok_def short_payload_example_dcrc short_payload_example_reads)
  ultimately show ?thesis
    by simp
qed

section \<open>A corrupted data checksum\<close>

lemma low_bit_test: "((c :: u32) AND 1 \<noteq> 0) = bit c 0"
  by (simp add: and_one_eq bit_0 mod_2_eq_odd)

lemma crc_bit_alt:
  "crc_bit c = (if bit c 0 then 0xedb88320 XOR drop_bit 1 c else drop_bit 1 c)"
  by (simp add: crc_bit_def low_bit_test)

lemma bit_crc_bit_31: "bit (crc_bit c) 31 = bit c 0"
  by (auto simp: crc_bit_alt bit_simps dest: bit_imp_le_length)

lemma drop_bit_crc_bit: "drop_bit 1 c = (if bit c 0 then 0xedb88320 XOR crc_bit c else crc_bit c)"
  by (simp add: crc_bit_alt flip: xor.assoc)

lemma crc_bit_inj: "crc_bit a = crc_bit b \<Longrightarrow> a = b"
proof -
  assume eq: "crc_bit a = crc_bit b"
  have "bit a 0 = bit (crc_bit a) 31"
    by (simp only: bit_crc_bit_31)
  also have "\<dots> = bit b 0"
    by (simp only: eq bit_crc_bit_31)
  finally have b0: "bit a 0 = bit b 0" .
  have "drop_bit 1 a = (if bit a 0 then 0xedb88320 XOR crc_bit a else crc_bit a)"
    by (rule drop_bit_crc_bit)
  also have "\<dots> = (if bit b 0 then 0xedb88320 XOR crc_bit b else crc_bit b)"
    by (simp only: eq b0)
  also have "\<dots> = drop_bit 1 b"
    by (rule drop_bit_crc_bit [symmetric])
  finally have d: "drop_bit 1 a = drop_bit 1 b" .
  show "a = b"
  proof (rule bit_eqI)
    fix n
    show "bit a n = bit b n"
    proof (cases n)
      case 0
      then show ?thesis by (simp only: b0)
    next
      case (Suc m)
      have "bit a (Suc m) = bit (drop_bit 1 a) m"
        by (simp add: bit_drop_bit_eq)
      also have "\<dots> = bit (drop_bit 1 b) m"
        by (simp only: d)
      also have "\<dots> = bit b (Suc m)"
        by (simp add: bit_drop_bit_eq)
      finally show ?thesis
        by (simp only: Suc)
    qed
  qed
qed

lemma crc_bit_loop_inj: "crc_bit_loop k a = crc_bit_loop k b \<Longrightarrow> a = b"
proof (induction k arbitrary: a b)
  case 0
  then show ?case by simp
next
  case (Suc k)
  from Suc.prems have "crc_bit_loop k (crc_bit a) = crc_bit_loop k (crc_bit b)"
    by (simp add: crc_bit_def)
  then have "crc_bit a = crc_bit b"
    by (rule Suc.IH)
  then show ?case
    by (rule crc_bit_inj)
qed

lemma crc_bit_xor_even:
  assumes "\<not> bit b 0"
  shows "crc_bit (a XOR b) = crc_bit a XOR drop_bit 1 b"
proof -
  have "bit (a XOR b) 0 = bit a 0"
    using assms by (simp add: bit_xor_iff)
  moreover have "drop_bit 1 (a XOR b) = drop_bit 1 a XOR drop_bit 1 b"
    by (rule bit_word_eqI) (simp add: bit_simps)
  ultimately show ?thesis
    by (simp add: crc_bit_alt xor.assoc)
qed

lemma crc_bit_loop_xor:
  "take_bit k b = 0 \<Longrightarrow> crc_bit_loop k (a XOR b) = crc_bit_loop k a XOR drop_bit k b"
proof (induction k arbitrary: a b)
  case 0
  then show ?case by simp
next
  case (Suc k)
  have "bit (take_bit (Suc k) b) 0 = bit b 0"
    by (simp add: bit_take_bit_iff)
  then have b0: "\<not> bit b 0"
    by (simp add: Suc.prems)
  have tk: "take_bit k (drop_bit 1 b) = 0"
  proof (rule bit_word_eqI)
    fix n
    have "bit (take_bit (Suc k) b) (Suc n) = False"
      by (simp only: Suc.prems bit_0_eq) simp
    then show "bit (take_bit k (drop_bit 1 b)) n = bit (0 :: u32) n"
      by (simp add: bit_simps)
  qed
  have "crc_bit_loop (Suc k) (a XOR b) = crc_bit_loop k (crc_bit (a XOR b))"
    by (simp add: crc_bit_def)
  also have "\<dots> = crc_bit_loop k (crc_bit a XOR drop_bit 1 b)"
    by (simp only: crc_bit_xor_even [OF b0])
  also have "\<dots> = crc_bit_loop k (crc_bit a) XOR drop_bit k (drop_bit 1 b)"
    by (rule Suc.IH [OF tk])
  also have "\<dots> = crc_bit_loop (Suc k) a XOR drop_bit (Suc k) b"
    by (simp add: crc_bit_def drop_bit_drop_bit)
  finally show ?case .
qed

lemma crc_step:
  fixes c :: u32 and d :: byte
  shows "crc_bit_loop 8 ((c XOR ucast d) AND 0xff) XOR drop_bit 8 c = crc_bit_loop 8 (c XOR ucast d)"
proof -
  define x where "x = c XOR ucast d"
  define b where "b = push_bit 8 (drop_bit 8 x)"
  have split: "x = take_bit 8 x XOR b"
    unfolding b_def by (rule bit_word_eqI) (auto simp: bit_simps)
  have tb: "take_bit 8 b = 0"
    unfolding b_def by (rule bit_word_eqI) (simp add: bit_simps)
  have db: "drop_bit 8 b = drop_bit 8 c"
    unfolding b_def x_def by (rule bit_word_eqI) (auto simp: bit_simps dest: bit_imp_le_length)
  have "crc_bit_loop 8 x = crc_bit_loop 8 (take_bit 8 x XOR b)"
    using split by simp
  also have "\<dots> = crc_bit_loop 8 (take_bit 8 x) XOR drop_bit 8 b"
    by (rule crc_bit_loop_xor [OF tb])
  finally show ?thesis
    by (simp add: db and_ff x_def)
qed

lemma xor_cancel_right: "(a :: u32) XOR x = b XOR x \<Longrightarrow> a = b"
proof -
  assume "a XOR x = b XOR x"
  then have "(a XOR x) XOR x = (b XOR x) XOR x"
    by simp
  then show "a = b"
    by (simp add: xor.assoc)
qed

lemma xor_cancel_left: "(x :: u32) XOR a = x XOR b \<Longrightarrow> a = b"
  using xor_cancel_right [of a x b] by (simp add: xor.commute)

lemma crc32_loop_step:
  "crc32_loop c (d # ds) = crc32_loop (crc_bit_loop 8 (c XOR ucast d)) ds"
  by (simp only: crc32_loop_Cons crc_step)

lemma crc32_loop_inj: "crc32_loop c ds = crc32_loop c' ds \<Longrightarrow> c = c'"
proof (induction ds arbitrary: c c')
  case Nil
  then show ?case by simp
next
  case (Cons d ds)
  from Cons.prems have "crc_bit_loop 8 (c XOR ucast d) = crc_bit_loop 8 (c' XOR ucast d)"
    unfolding crc32_loop_step by (rule Cons.IH)
  then have "c XOR ucast d = c' XOR ucast d"
    by (rule crc_bit_loop_inj)
  then show ?case
    by (rule xor_cancel_right)
qed

lemma crc32_loop_append: "crc32_loop c (xs @ ys) = crc32_loop (crc32_loop c xs) ys"
  by (induction xs arbitrary: c) (simp_all del: crc32_loop.simps(2) add: crc32_loop_step)

lemma ucast_byte_inj: "(ucast (d :: byte) :: u32) = ucast d' \<Longrightarrow> d = d'"
  by (metis byte0_of_u32)

lemma crc32_single_byte:
  assumes "d \<noteq> d'"
  shows "crc32 (pre @ d # post) \<noteq> crc32 (pre @ d' # post)"
proof
  assume "crc32 (pre @ d # post) = crc32 (pre @ d' # post)"
  then have "crc32_loop 0xffffffff (pre @ d # post) XOR 0xffffffff =
             crc32_loop 0xffffffff (pre @ d' # post) XOR 0xffffffff"
    by (simp add: crc32_def crc32_seed_def to_uint32_def word_uint_eq_iff)
  then have "crc32_loop 0xffffffff (pre @ d # post) = crc32_loop 0xffffffff (pre @ d' # post)"
    by (rule xor_cancel_right)
  then have "crc32_loop (crc32_loop 0xffffffff pre) (d # post) =
             crc32_loop (crc32_loop 0xffffffff pre) (d' # post)"
    by (simp only: crc32_loop_append)
  then have "crc_bit_loop 8 (crc32_loop 0xffffffff pre XOR ucast d) =
             crc_bit_loop 8 (crc32_loop 0xffffffff pre XOR ucast d')"
    unfolding crc32_loop_step by (rule crc32_loop_inj)
  then have "crc32_loop 0xffffffff pre XOR ucast d = crc32_loop 0xffffffff pre XOR ucast d'"
    by (rule crc_bit_loop_inj)
  then have "(ucast d :: u32) = ucast d'"
    by (rule xor_cancel_left)
  then show False
    using assms ucast_byte_inj by blast
qed

lemma flip_changes_byte:
  fixes b :: byte
  assumes "k < 8"
  shows "b XOR push_bit k 1 \<noteq> b"
proof
  assume eq: "b XOR push_bit k 1 = b"
  have "bit (b XOR push_bit k 1) k = (\<not> bit b k)"
    using assms by (simp add: bit_simps)
  then have "bit b k = (\<not> bit b k)"
    by (simp only: eq)
  then show False
    by simp
qed

lemma readU32BE_bytes:
  "be32 (readU32BE buf off) =
     [byte_at buf off, byte_at buf (off + 1), byte_at buf (off + 2), byte_at buf (off + 3)]"
  by (simp only: be32_def to_uint32_def readU32BE_def Let_def word_of_int_uint
      byte3_of_u32 byte2_of_u32 byte1_of_u32 byte0_of_u32)

lemma readU32BE_cong:
  assumes "byte_at buf' off = byte_at buf off" "byte_at buf' (off + 1) = byte_at buf (off + 1)"
    "byte_at buf' (off + 2) = byte_at buf (off + 2)" "byte_at buf' (off + 3) = byte_at buf (off + 3)"
  shows "readU32BE buf' off = readU32BE buf off"
  by (simp only: readU32BE_def assms)

lemma byte_at_update: "j \<noteq> i \<Longrightarrow> byte_at (buf[i := b]) j = byte_at buf j"
  by (simp add: byte_at_def)

lemma readU32BE_update_other:
  "i < off \<or> off + 4 \<le> i \<Longrightarrow> readU32BE (buf[i := b]) off = readU32BE buf off"
  by (rule readU32BE_cong; rule byte_at_update; arith)

lemma readU32BE_update_inside:
  assumes "off \<le> i" "i < off + 4" "i < length buf" "b \<noteq> buf ! i"
  shows "readU32BE (buf[i := b]) off \<noteq> readU32BE buf off"
proof
  assume "readU32BE (buf[i := b]) off = readU32BE buf off"
  then have "be32 (readU32BE (buf[i := b]) off) = be32 (readU32BE buf off)"
    by simp
  then have "byte_at (buf[i := b]) off = byte_at buf off"
    "byte_at (buf[i := b]) (off + 1) = byte_at buf (off + 1)"
    "byte_at (buf[i := b]) (off + 2) = byte_at buf (off + 2)"
    "byte_at (buf[i := b]) (off + 3) = byte_at buf (off + 3)"
    unfolding readU32BE_bytes by simp_all
  moreover have "i = off \<or> i = off + 1 \<or> i = off + 2 \<or> i = off + 3"
    using assms by arith
  ultimately have "byte_at (buf[i := b]) i = byte_at buf i"
    by auto
  then show False
    using assms by (simp add: byte_at_def)
qed

lemma crc32_update:
  assumes "i < length ys" "b \<noteq> ys ! i"
  shows "crc32 (ys[i := b]) \<noteq> crc32 ys"
proof -
  have "ys[i := b] = take i ys @ b # drop (Suc i) ys"
    using assms(1) by (rule upd_conv_take_nth_drop)
  moreover have "ys = take i ys @ ys ! i # drop (Suc i) ys"
    using assms(1) by (rule id_take_nth_drop)
  ultimately show ?thesis
    using crc32_single_byte [OF assms(2), of "take i ys" "drop (Suc i) ys"] by simp
qed

lemma parse_Inr_iff:
  "snd (parseLegacyUImage buf) = Inr (h, t) \<longleftrightarrow>
     64 \<le> length buf \<and> readU32BE buf 0 = UIMAGE_MAGIC \<and>
     64 + nat (readU32BE buf 12) \<le> length buf \<and> 8 \<le> nat (readU32BE buf 12) \<and>
     h = header_of buf \<and> t = TextDecoder_utf8 (drop 8 (payload_of buf))"
  by (auto simp: parse_eq)

lemma header_of_update:
  assumes "24 \<le> i" "i < 28"
  shows "header_of (buf[i := b]) = (header_of buf)\<lparr>dcrc := readU32BE (buf[i := b]) 24\<rparr>"
  using assms by (simp add: header_of_def readU32BE_update_other slice_list_def drop_update_cancel)

lemma payload_of_update:
  assumes "24 \<le> i" "i < 28"
  shows "payload_of (buf[i := b]) = payload_of buf"
  using assms by (simp add: payload_of_def readU32BE_update_other slice_list_def drop_update_cancel)

lemma header_copy_update:
  assumes "24 \<le> i" "i < 28"
  shows "writeU32BE (slice_list (buf[i := b]) 0 64) 4 0 = (writeU32BE (slice_list buf 0 64) 4 0)[i := b]"
  using assms
  by (simp add: slice_list_def writeU32BE_def Let_def take_update_swap list_update_swap)

lemma header_copy_nth:
  assumes "24 \<le> i" "i < 28" "64 \<le> length buf"
  shows "writeU32BE (slice_list buf 0 64) 4 0 ! i = buf ! i"
  using assms by (simp add: slice_list_def writeU32BE_def Let_def)

text \<open>C4: take a buffer that parses and whose stored dataCrc is the checksum of its payload, and
  flip one bit of the dataCrc field (bit \<open>k\<close> of the byte at offset \<open>i\<close>, 24 to 27).  The
  parser still succeeds, returns the same script text and the same header but for the
  dataCrc it read, and shows exactly one warning; the data checksum no longer matches, and
  if the header checksum matched before it no longer does either, so one warning stands
  for both mismatches.\<close>

theorem parse_dcrc_bit_flip:
  assumes valid: "snd (parseLegacyUImage buf) = Inr (h, t)"
    and stored: "data_crc_ok buf"
    and pos: "24 \<le> i" "i < 28" "k < 8"
  shows "parseLegacyUImage (flip_bit buf i k) =
           ([''boot.scr CRC mismatch''], Inr (h\<lparr>dcrc := readU32BE (flip_bit buf i k) 24\<rparr>, t)) \<and>
         length (fst (parseLegacyUImage (flip_bit buf i k))) = 1 \<and>
         \<not> data_crc_ok (flip_bit buf i k) \<and>
         (header_crc_ok buf \<longrightarrow> \<not> header_crc_ok (flip_bit buf i k))"
proof -
  define b where "b = buf ! i XOR push_bit k 1"
  let ?buf' = "buf[i := b]"
  from valid have len: "64 \<le> length buf" and mg: "readU32BE buf 0 = UIMAGE_MAGIC"
    and fits: "64 + nat (readU32BE buf 12) \<le> length buf" and wrap: "8 \<le> nat (readU32BE buf 12)"
    and h: "h = header_of buf" and t: "t = TextDecoder_utf8 (drop 8 (payload_of buf))"
    by (simp_all add: parse_Inr_iff)
  have ne: "b \<noteq> buf ! i"
    unfolding b_def using pos(3) by (rule flip_changes_byte)
  have i_len: "i < length buf"
    using pos len by simp
  have d_ne: "readU32BE ?buf' 24 \<noteq> readU32BE buf 24"
    using pos i_len ne by (intro readU32BE_update_inside) simp_all
  have same: "readU32BE ?buf' 0 = readU32BE buf 0" "readU32BE ?buf' 4 = readU32BE buf 4"
    "readU32BE ?buf' 12 = readU32BE buf 12"
    using pos by (simp_all add: readU32BE_update_other)
  have pl: "payload_of ?buf' = payload_of buf"
    using pos(1,2) by (rule payload_of_update)
  have hd: "header_of ?buf' = h\<lparr>dcrc := readU32BE ?buf' 24\<rparr>"
    unfolding h using pos(1,2) by (rule header_of_update)
  have data_bad: "\<not> data_crc_ok ?buf'"
    using stored d_ne by (simp add: data_crc_ok_def pl)
  have "i < length (writeU32BE (slice_list buf 0 64) 4 0)"
    using pos len by (simp add: slice_list_def)
  moreover have "b \<noteq> writeU32BE (slice_list buf 0 64) 4 0 ! i"
    using ne by (simp only: header_copy_nth [OF pos(1,2) len] not_False_eq_True)
  ultimately have "crc32 (writeU32BE (slice_list ?buf' 0 64) 4 0) \<noteq>
      crc32 (writeU32BE (slice_list buf 0 64) 4 0)"
    unfolding header_copy_update [OF pos(1,2)] by (rule crc32_update)
  then have header_bad: "header_crc_ok buf \<longrightarrow> \<not> header_crc_ok ?buf'"
    by (simp add: header_crc_ok_def same)
  have "parseLegacyUImage ?buf' = ([''boot.scr CRC mismatch''], Inr (h\<lparr>dcrc := readU32BE ?buf' 24\<rparr>, t))"
    using len mg fits wrap data_bad by (simp add: parse_eq same pl hd t crc_warnings_def)
  then show ?thesis
    using data_bad header_bad by (simp add: flip_bit_def b_def)
qed

lemma valid_example_built:
  "buildLegacyScriptImage 0 (default_args (js_literal ''x'')) = Inr valid_example"
  by (simp add: build_eq hcrc_x_0 payload_x valid_example_def)
    (simp add: header_bytes_def default_args_def field_or_def payload_x crc_payload_x name_boot
      be32_eval low8_def UIMAGE_MAGIC_def TYPE_SCRIPT_def COMP_NONE_def)

lemma valid_example_reads:
  "length valid_example = 73"
  "readU32BE valid_example 0 = UIMAGE_MAGIC"
  "readU32BE valid_example 12 = 9"
  "readU32BE valid_example 24 = 0x738b3e05"
  by (simp_all add: valid_example_def readU32BE_def byte_at_def UIMAGE_MAGIC_def)

lemma valid_example_payload: "payload_of valid_example = [0, 0, 0, 1, 0, 0, 0, 0, 0x78]"
  by (simp add: payload_of_def valid_example_reads) (simp add: valid_example_def slice_list_def)

lemma valid_example_parses:
  "snd (parseLegacyUImage valid_example) = Inr (header_of valid_example, js_literal ''x'')"
  by (simp add: parse_Inr_iff valid_example_reads valid_example_payload TextDecoder_x)

lemma valid_example_data_crc: "data_crc_ok valid_example"
  by (simp add: data_crc_ok_def valid_example_payload crc_payload_x valid_example_reads)

theorem parse_dcrc_bit_flip_witness:
  "length (fst (parseLegacyUImage (flip_bit valid_example 27 0))) = 1 \<and>
   snd (parseLegacyUImage (flip_bit valid_example 27 0)) =
     Inr ((header_of valid_example)\<lparr>dcrc := 0x738b3e04\<rparr>, js_literal ''x'') \<and>
   snd (parseLegacyUImage valid_example) = Inr (header_of valid_example, js_literal ''x'')"
proof -
  have "readU32BE (flip_bit valid_example 27 0) 24 = 0x738b3e04"
    by (simp add: flip_bit_def valid_example_def readU32BE_def byte_at_def)
  then show ?thesis
    using parse_dcrc_bit_flip [OF valid_example_parses valid_example_data_crc, of 27 0]
    by (simp add: valid_example_parses)
qed

section \<open>Image names\<close>

lemma ascii_not_surrogate: "(u :: 16 word) < 0x80 \<Longrightarrow> \<not> is_surrogate u"
  by (simp add: is_surrogate_def is_high_surrogate_def is_low_surrogate_def word_le_nat_alt word_less_nat_alt)

lemma ascii_unit_bytes: "(u :: 16 word) < 0x80 \<Longrightarrow> utf8_bytes (lone_unit u) = [ucast u]"
  by (simp add: lone_unit_def ascii_not_surrogate utf8_bytes_def word_less_nat_alt)

lemma encode_ascii: "is_ascii s \<Longrightarrow> TextEncoder_encode s = map ucast s"
proof (induction s rule: to_code_points.induct)
  case 1
  then show ?case by (simp add: TextEncoder_encode_def)
next
  case (2 u)
  then show ?case by (simp add: TextEncoder_encode_def is_ascii_def ascii_unit_bytes)
next
  case (3 u v us)
  then have "\<not> is_high_surrogate u"
    using ascii_not_surrogate [of u] by (simp add: is_ascii_def is_surrogate_def)
  with 3 show ?case
    by (simp add: TextEncoder_encode_def is_ascii_def ascii_unit_bytes)
qed

lemma unat_ucast_small: "(u :: 16 word) < 0x100 \<Longrightarrow> unat (ucast u :: byte) = unat u"
  by (simp add: unsigned_ucast_eq word_less_nat_alt take_bit_nat_eq_self)

lemma ucast_ucast_small: "(u :: 16 word) < 0x100 \<Longrightarrow> (ucast (ucast u :: byte) :: 16 word) = u"
  by (simp add: word_unat_eq_iff unsigned_ucast_eq unsigned_take_bit_eq word_less_nat_alt
      take_bit_nat_eq_self)

lemma windows_1252_ascii: "(u :: 16 word) < 0x80 \<Longrightarrow> windows_1252 (ucast u) = u"
proof -
  assume a: "u < 0x80"
  then have "u < 0x100"
    by (simp add: word_less_nat_alt)
  then have "unat (ucast u :: byte) = unat u" "(ucast (ucast u :: byte) :: 16 word) = u"
    by (simp_all add: unat_ucast_small ucast_ucast_small)
  then show ?thesis
    using a by (simp add: windows_1252_def word_le_nat_alt word_less_nat_alt)
qed

lemma decode_ascii: "is_ascii s \<Longrightarrow> TextDecoder_ascii (map ucast s) = s"
  by (induction s) (simp_all add: TextDecoder_ascii_def is_ascii_def windows_1252_ascii)

lemma slice_indexOf:
  "slice_list bytes 0 (if indexOf bytes 0 \<ge> 0 then nat (indexOf bytes 0) else length bytes) =
     takeWhile (\<lambda>b. b \<noteq> 0) bytes"
proof -
  let ?tw = "takeWhile (\<lambda>b. b \<noteq> 0) bytes"
  have ix: "indexOf bytes 0 = (if 0 \<in> set bytes then int (length ?tw) else - 1)"
    by (induction bytes) (auto simp: Let_def)
  show ?thesis
  proof (cases "0 \<in> set bytes")
    case True
    have "take (length ?tw) bytes = ?tw"
      by (simp add: takeWhile_eq_take [symmetric])
    with True show ?thesis
      by (simp add: ix slice_list_def)
  next
    case False
    then have tw: "?tw = bytes"
      by (intro takeWhile_eq_all_conv [THEN iffD2]) auto
    have "indexOf bytes 0 = - 1"
      using False by (simp only: ix if_False)
    then show ?thesis
      by (simp only: tw) (simp add: slice_list_def)
  qed
qed

lemma decodeName_eq:
  "decodeName bytes = trim (TextDecoder_ascii (takeWhile (\<lambda>b. b \<noteq> 0) bytes))"
  by (simp only: decodeName_def Let_def slice_indexOf)

lemma length_trim: "length (trim s) \<le> length s"
proof -
  have "length (trim s) \<le> length (dropWhile is_js_space s)"
    unfolding trim_def using length_dropWhile_le [of is_js_space "rev (dropWhile is_js_space s)"]
    by simp
  also have "\<dots> \<le> length s"
    by (rule length_dropWhile_le)
  finally show ?thesis .
qed

lemma is_ascii_take: "is_ascii s \<Longrightarrow> is_ascii (take n s)"
  unfolding is_ascii_def list_all_iff by (auto dest: in_set_takeD)

lemma is_ascii_takeWhile: "is_ascii s \<Longrightarrow> is_ascii (takeWhile P s)"
  unfolding is_ascii_def list_all_iff by (auto dest: set_takeWhileD)

lemma ucast_ascii_zero: "(u :: 16 word) < 0x80 \<Longrightarrow> ((ucast u :: byte) = 0) = (u = 0)"
proof -
  assume "u < 0x80"
  then have "u < 0x100"
    by (simp add: word_less_nat_alt)
  then have "unat (ucast u :: byte) = unat u"
    by (rule unat_ucast_small)
  then show ?thesis
    by (simp add: word_unat_eq_iff)
qed

lemma takeWhile_ucast_ascii:
  "is_ascii s \<Longrightarrow>
     takeWhile (\<lambda>b. b \<noteq> 0) (map ucast s :: byte list) = map ucast (takeWhile (\<lambda>u. u \<noteq> 0) s)"
  by (induction s) (simp_all add: is_ascii_def ucast_ascii_zero)

lemma decodeName_ascii:
  assumes "is_ascii s"
  shows "decodeName (take n (map ucast s)) = trim (takeWhile (\<lambda>u. u \<noteq> 0) (take n s))"
proof -
  have a: "is_ascii (take n s)"
    using assms by (rule is_ascii_take)
  have "takeWhile (\<lambda>b. b \<noteq> 0) (take n (map ucast s) :: byte list) =
        map ucast (takeWhile (\<lambda>u. u \<noteq> 0) (take n s))"
    using takeWhile_ucast_ascii [OF a] by (simp add: take_map)
  then show ?thesis
    using is_ascii_takeWhile [OF a] by (simp add: decodeName_eq decode_ascii)
qed

lemma name_field_long:
  "32 \<le> length (TextEncoder_encode nm) \<Longrightarrow> name_field nm = take 32 (TextEncoder_encode nm)"
  by (simp add: name_field_def)

text \<open>C8, amended: for a name given in the previous header whose UTF-8 encoding is longer than 32
  bytes, the name field of the built container is exactly the first 32 bytes of the
  encoding, with no padding; the parser's name decoder returns the windows-1252 reading of
  the bytes before the first NUL among them, with white space removed at both ends.  For an
  ASCII name that is the first 32 characters of the name, cut at the first NUL and trimmed,
  and it differs from the name.\<close>

theorem build_truncates_name:
  assumes "baseHeader args = Some ph" "p_name ph = Some nm"
    and long: "32 < length (TextEncoder_encode nm)"
  shows "\<exists>out. buildLegacyScriptImage now args = Inr out \<and>
           slice_list out 32 64 = take 32 (TextEncoder_encode nm) \<and>
           length (slice_list out 32 64) = 32 \<and>
           decodeName (slice_list out 32 64) =
             trim (TextDecoder_ascii (takeWhile (\<lambda>b. b \<noteq> 0) (take 32 (TextEncoder_encode nm)))) \<and>
           (is_ascii nm \<longrightarrow>
              decodeName (slice_list out 32 64) = trim (takeWhile (\<lambda>u. u \<noteq> 0) (take 32 nm)) \<and>
              decodeName (slice_list out 32 64) \<noteq> nm)"
proof -
  let ?out = "header_bytes now args (crc32 (header_bytes now args 0)) @ payload_bytes (script args)"
  have field: "slice_list ?out 32 64 = take 32 (TextEncoder_encode nm)"
    using assms by (simp add: header_bytes_name field_or_def name_field_long)
  have len: "length (slice_list ?out 32 64) = 32"
    using long by (simp add: field)
  have dec: "decodeName (slice_list ?out 32 64) =
      trim (TextDecoder_ascii (takeWhile (\<lambda>b. b \<noteq> 0) (take 32 (TextEncoder_encode nm))))"
    by (simp only: field decodeName_eq)
  have asc: "decodeName (slice_list ?out 32 64) = trim (takeWhile (\<lambda>u. u \<noteq> 0) (take 32 nm)) \<and>
      decodeName (slice_list ?out 32 64) \<noteq> nm" if "is_ascii nm"
  proof -
    have d: "decodeName (slice_list ?out 32 64) = trim (takeWhile (\<lambda>u. u \<noteq> 0) (take 32 nm))"
      by (simp only: field encode_ascii [OF that] decodeName_ascii [OF that])
    have "length (trim (takeWhile (\<lambda>u. u \<noteq> 0) (take 32 nm))) \<le>
        length (takeWhile (\<lambda>u. u \<noteq> 0) (take 32 nm))"
      by (rule length_trim)
    also have "\<dots> \<le> length (take 32 nm)"
      by (rule length_takeWhile_le)
    also have "\<dots> \<le> 32"
      by simp
    also have "\<dots> < length nm"
      using long by (simp add: encode_ascii [OF that])
    finally have "trim (takeWhile (\<lambda>u. u \<noteq> 0) (take 32 nm)) \<noteq> nm"
      by auto
    with d show ?thesis
      by simp
  qed
  show ?thesis
    unfolding build_eq using field len dec asc by blast
qed

lemma long_name_example_ascii: "is_ascii long_name_example"
  by (simp add: long_name_example_def is_ascii_def js_literal_def)

lemma long_name_example_length: "length long_name_example = 42"
  by (simp add: long_name_example_def js_literal_def)

text \<open>The name need not differ from what it decodes to when it is not ASCII: the first 32
  bytes of the UTF-8 encoding of this 32-unit name, read as windows-1252, are the name
  itself, although the encoding has 73 bytes.\<close>

lemma mojibake_name_encoded:
  "take 32 (TextEncoder_encode mojibake_name) =
     [0xc3, 0x83, 0xc6, 0x92, 0xc3, 0x86, 0xe2, 0x80, 0x99, 0xc3, 0x83, 0xe2, 0x80, 0xa0, 0xc3, 0xa2,
      0xe2, 0x82, 0xac, 0xe2, 0x84, 0xa2, 0xc3, 0x83, 0xc6, 0x92, 0xc3, 0xa2, 0xe2, 0x82, 0xac, 0xc2]"
  by (simp add: mojibake_name_def text_eval)

lemma mojibake_name_decodes_to_itself:
  "32 < length (TextEncoder_encode mojibake_name) \<and>
   decodeName (take 32 (TextEncoder_encode mojibake_name)) = mojibake_name"
proof -
  have "length (TextEncoder_encode mojibake_name) = 73"
    by (simp add: mojibake_name_def text_eval)
  moreover have "decodeName (take 32 (TextEncoder_encode mojibake_name)) = mojibake_name"
    unfolding mojibake_name_encoded
    by (simp add: decodeName_eq TextDecoder_ascii_def windows_1252_def windows_1252_high_def
        trim_def is_js_space_def mojibake_name_def)
  ultimately show ?thesis
    by simp
qed

text \<open>C8, as stated, fails twice.  The first 32 characters of the 42-character name
  "U-Boot script for the ARM board rev2 image" end in a space: the builder stores those 32
  bytes, and the parser's name decoder returns them without the space, which is not the
  truncated value.  And the name of 32 non-ASCII code units above, whose encoding has 73
  bytes, decodes back to the original name.\<close>

theorem truncated_name_is_trimmed:
  "32 < length (TextEncoder_encode long_name_example) \<and>
   take 32 long_name_example = js_literal ''U-Boot script for the ARM board '' \<and>
   decodeName (slice_list (projr (buildLegacyScriptImage 0 (renamed_args long_name_example))) 32 64) =
     js_literal ''U-Boot script for the ARM board'' \<and>
   32 < length (TextEncoder_encode mojibake_name) \<and>
   decodeName (slice_list (projr (buildLegacyScriptImage 0 (renamed_args mojibake_name))) 32 64) =
     mojibake_name"
proof -
  have enc: "TextEncoder_encode long_name_example = map ucast long_name_example"
    using long_name_example_ascii by (rule encode_ascii)
  have "slice_list (projr (buildLegacyScriptImage 0 (renamed_args long_name_example))) 32 64 =
      take 32 (map ucast long_name_example)"
    by (simp add: build_eq header_bytes_name renamed_args_def name_only_def field_or_def
        name_field_long enc long_name_example_length)
  then have "decodeName (slice_list (projr (buildLegacyScriptImage 0 (renamed_args long_name_example))) 32 64) =
      trim (takeWhile (\<lambda>u. u \<noteq> 0) (take 32 long_name_example))"
    by (simp only: decodeName_ascii [OF long_name_example_ascii])
  also have "\<dots> = js_literal ''U-Boot script for the ARM board''"
    by (simp add: long_name_example_def js_literal_def trim_def is_js_space_def)
  finally have ascii_case:
    "decodeName (slice_list (projr (buildLegacyScriptImage 0 (renamed_args long_name_example))) 32 64) =
      js_literal ''U-Boot script for the ARM board''" .
  have long: "32 < length (TextEncoder_encode mojibake_name)"
    using mojibake_name_decodes_to_itself by simp
  then have "slice_list (projr (buildLegacyScriptImage 0 (renamed_args mojibake_name))) 32 64 =
      take 32 (TextEncoder_encode mojibake_name)"
    by (simp add: build_eq header_bytes_name renamed_args_def name_only_def field_or_def
        name_field_long)
  then have other_case:
    "decodeName (slice_list (projr (buildLegacyScriptImage 0 (renamed_args mojibake_name))) 32 64) =
      mojibake_name"
    using mojibake_name_decodes_to_itself by simp
  have "take 32 long_name_example = js_literal ''U-Boot script for the ARM board ''"
    by (simp add: long_name_example_def js_literal_def)
  then show ?thesis
    using ascii_case other_case long by (simp add: enc long_name_example_length)
qed

theorem build_truncates_name_witness:
  "\<exists>out. buildLegacyScriptImage 0 (renamed_args (replicate 40 0x41)) = Inr out \<and>
     slice_list out 32 64 = replicate 32 0x41 \<and>
     decodeName (slice_list out 32 64) = replicate 32 0x41 \<and>
     decodeName (slice_list out 32 64) \<noteq> replicate 40 0x41"
proof -
  have a: "is_ascii (replicate 40 0x41)"
    by (simp add: is_ascii_def list_all_iff)
  have e: "TextEncoder_encode (replicate 40 0x41) = replicate 40 0x41"
    by (simp add: encode_ascii [OF a])
  show ?thesis
    using build_truncates_name [of "renamed_args (replicate 40 0x41)" "name_only (replicate 40 0x41)"
        "replicate 40 0x41" 0]
    by (simp add: renamed_args_def name_only_def a e trim_def is_js_space_def) blast
qed

section \<open>The round trip\<close>

lemma unat_byte: "x < 256 \<Longrightarrow> unat (of_nat x :: byte) = x"
  by (simp add: unat_of_nat)

lemma decode_1:
  assumes "unat b0 = cp" "cp < 0x80"
  shows "utf8_run utf8_init (b0 # rest) = cp # utf8_run utf8_init rest"
  using assms by (simp add: utf8_handle_def utf8_lead_def utf8_init_def)

lemma mod_offset:
  fixes a :: nat
  assumes "a < k"
  shows "(k * c + a) mod k = a"
proof -
  have "(k * c + a) mod k = a mod k"
    by (rule mod_mult_self4)
  then show ?thesis
    using assms by simp
qed

lemma mod_lead2: "a < 32 \<Longrightarrow> (192 + a) mod 32 = (a::nat)"
  using mod_offset [of a 32 6] by simp

lemma mod_lead3: "a < 16 \<Longrightarrow> (224 + a) mod 16 = (a::nat)"
  using mod_offset [of a 16 14] by simp

lemma mod_lead4: "a < 8 \<Longrightarrow> (240 + a) mod 8 = (a::nat)"
  using mod_offset [of a 8 30] by simp

lemma mod_cont: "r < 64 \<Longrightarrow> (128 + r) mod 64 = (r::nat)"
  using mod_offset [of r 64 2] by simp

lemma decode_2:
  assumes "unat b0 = 0xC0 + a" "unat b1 = 0x80 + r" "2 \<le> a" "a < 32" "r < 64"
  shows "utf8_run utf8_init (b0 # b1 # rest) = (a * 64 + r) # utf8_run utf8_init rest"
  using assms by (simp add: mod_lead2 mod_cont utf8_handle_def utf8_lead_def utf8_init_def)

lemma decode_3:
  assumes "unat b0 = 0xE0 + a" "unat b1 = 0x80 + m" "unat b2 = 0x80 + r"
    and "a < 16" "m < 64" "r < 64" "a = 0 \<longrightarrow> 32 \<le> m" "a = 13 \<longrightarrow> m < 32"
  shows "utf8_run utf8_init (b0 # b1 # b2 # rest) =
           ((a * 64 + m) * 64 + r) # utf8_run utf8_init rest"
  using assms by (auto simp: mod_lead3 mod_cont utf8_handle_def utf8_lead_def utf8_init_def)

lemma decode_4:
  assumes "unat b0 = 0xF0 + a" "unat b1 = 0x80 + m" "unat b2 = 0x80 + n" "unat b3 = 0x80 + r"
    and "a < 5" "m < 64" "n < 64" "r < 64" "a = 0 \<longrightarrow> 16 \<le> m" "a = 4 \<longrightarrow> m < 16"
  shows "utf8_run utf8_init (b0 # b1 # b2 # b3 # rest) =
           (((a * 64 + m) * 64 + n) * 64 + r) # utf8_run utf8_init rest"
  using assms by (auto simp: mod_lead4 mod_cont utf8_handle_def utf8_lead_def utf8_init_def)

lemma split_64: "(q :: nat) div 64 * 64 + q mod 64 = q"
  by simp

lemma roundtrip_1:
  assumes "cp < 0x80"
  shows "utf8_run utf8_init (utf8_bytes cp @ rest) = cp # utf8_run utf8_init rest"
proof -
  have "unat (of_nat cp :: byte) = cp"
    using assms by (intro unat_byte) simp
  then have "utf8_run utf8_init (of_nat cp # rest) = cp # utf8_run utf8_init rest"
    using assms by (rule decode_1)
  then show ?thesis
    using assms by (simp add: utf8_bytes_def del: utf8_run.simps)
qed

lemma roundtrip_2:
  assumes "0x80 \<le> cp" "cp < 0x800"
  shows "utf8_run utf8_init (utf8_bytes cp @ rest) = cp # utf8_run utf8_init rest"
proof -
  define a where "a = cp div 64"
  define r where "r = cp mod 64"
  have cp: "a * 64 + r = cp"
    unfolding a_def r_def by (rule split_64)
  have r: "r < 64"
    unfolding r_def by simp
  have a: "2 \<le> a" "a < 32"
    using assms cp r by linarith+
  have "unat (of_nat (0xC0 + a) :: byte) = 0xC0 + a" "unat (of_nat (0x80 + r) :: byte) = 0x80 + r"
    using a r by (auto intro!: unat_byte simp del: of_nat_add)
  then have "utf8_run utf8_init (of_nat (0xC0 + a) # of_nat (0x80 + r) # rest) =
      (a * 64 + r) # utf8_run utf8_init rest"
    using a r by (rule decode_2)
  then show ?thesis
    using assms by (simp add: utf8_bytes_def cp del: utf8_run.simps of_nat_add flip: a_def r_def)
qed

lemma roundtrip_3:
  assumes "0x800 \<le> cp" "cp < 0x10000" "\<not> (0xD800 \<le> cp \<and> cp \<le> 0xDFFF)"
  shows "utf8_run utf8_init (utf8_bytes cp @ rest) = cp # utf8_run utf8_init rest"
proof -
  define q where "q = cp div 64"
  define r where "r = cp mod 64"
  define a where "a = q div 64"
  define m where "m = q mod 64"
  have cp: "q * 64 + r = cp"
    unfolding q_def r_def by (rule split_64)
  have q: "a * 64 + m = q"
    unfolding a_def m_def by (rule split_64)
  have r: "r < 64" and m: "m < 64"
    unfolding r_def m_def by simp_all
  have a: "a < 16"
    using assms cp q r m by linarith
  have lo: "a = 0 \<longrightarrow> 32 \<le> m"
    using assms cp q r m by auto
  have hi: "a = 13 \<longrightarrow> m < 32"
    using assms cp q r m by auto
  have a_eq: "cp div 4096 = a"
    unfolding a_def q_def by (simp add: div_mult2_eq)
  have "unat (of_nat (0xE0 + a) :: byte) = 0xE0 + a" "unat (of_nat (0x80 + m) :: byte) = 0x80 + m"
    "unat (of_nat (0x80 + r) :: byte) = 0x80 + r"
    using a m r by (auto intro!: unat_byte simp del: of_nat_add)
  then have "utf8_run utf8_init (of_nat (0xE0 + a) # of_nat (0x80 + m) # of_nat (0x80 + r) # rest) =
      ((a * 64 + m) * 64 + r) # utf8_run utf8_init rest"
    using a m r lo hi by (rule decode_3)
  then show ?thesis
    using assms
    by (simp add: utf8_bytes_def cp q a_eq del: utf8_run.simps of_nat_add flip: q_def r_def m_def)
qed

lemma roundtrip_4:
  assumes "0x10000 \<le> cp" "cp < 0x110000"
  shows "utf8_run utf8_init (utf8_bytes cp @ rest) = cp # utf8_run utf8_init rest"
proof -
  define q where "q = cp div 64"
  define r where "r = cp mod 64"
  define p where "p = q div 64"
  define n where "n = q mod 64"
  define a where "a = p div 64"
  define m where "m = p mod 64"
  have cp: "q * 64 + r = cp"
    unfolding q_def r_def by (rule split_64)
  have q: "p * 64 + n = q"
    unfolding p_def n_def by (rule split_64)
  have p: "a * 64 + m = p"
    unfolding a_def m_def by (rule split_64)
  have r: "r < 64" and n: "n < 64" and m: "m < 64"
    unfolding r_def n_def m_def by simp_all
  have a: "a < 5"
    using assms cp q p r n m by linarith
  have lo: "a = 0 \<longrightarrow> 16 \<le> m"
    using assms cp q p r n m by auto
  have hi: "a = 4 \<longrightarrow> m < 16"
    using assms cp q p r n m by auto
  have p_eq: "cp div 4096 = p"
    unfolding p_def q_def by (simp add: div_mult2_eq)
  have a_eq: "cp div 262144 = a"
    unfolding a_def p_def q_def by (simp add: div_mult2_eq)
  have "unat (of_nat (0xF0 + a) :: byte) = 0xF0 + a" "unat (of_nat (0x80 + m) :: byte) = 0x80 + m"
    "unat (of_nat (0x80 + n) :: byte) = 0x80 + n" "unat (of_nat (0x80 + r) :: byte) = 0x80 + r"
    using a m n r by (auto intro!: unat_byte simp del: of_nat_add)
  then have "utf8_run utf8_init
      (of_nat (0xF0 + a) # of_nat (0x80 + m) # of_nat (0x80 + n) # of_nat (0x80 + r) # rest) =
      (((a * 64 + m) * 64 + n) * 64 + r) # utf8_run utf8_init rest"
    using a m n r lo hi by (rule decode_4)
  then show ?thesis
    using assms
    by (simp add: utf8_bytes_def cp q p p_eq a_eq del: utf8_run.simps of_nat_add
        flip: q_def r_def n_def m_def)
qed

lemma roundtrip_scalar:
  assumes "is_scalar cp"
  shows "utf8_run utf8_init (utf8_bytes cp @ rest) = cp # utf8_run utf8_init rest"
proof -
  consider "cp < 0x80" | "0x80 \<le> cp" "cp < 0x800" | "0x800 \<le> cp" "cp < 0x10000"
    | "0x10000 \<le> cp"
    by linarith
  then show ?thesis
  proof cases
    case 1
    then show ?thesis by (rule roundtrip_1)
  next
    case 2
    then show ?thesis by (rule roundtrip_2)
  next
    case 3
    then show ?thesis using assms by (intro roundtrip_3) (simp_all add: is_scalar_def)
  next
    case 4
    then show ?thesis using assms by (intro roundtrip_4) (simp_all add: is_scalar_def)
  qed
qed

lemma roundtrip_scalars:
  "list_all is_scalar cps \<Longrightarrow> utf8_run utf8_init (concat (map utf8_bytes cps)) = cps"
proof (induction cps)
  case Nil
  then show ?case by (simp add: utf8_init_def)
next
  case (Cons cp cps)
  then show ?case by (simp add: roundtrip_scalar del: utf8_run.simps)
qed

lemma unat_unit: "unat (u :: 16 word) < 0x10000"
  using unsigned_less [of u] by simp

lemma surrogate_nat:
  "is_high_surrogate u = (0xD800 \<le> unat u \<and> unat u \<le> 0xDBFF)"
  "is_low_surrogate u = (0xDC00 \<le> unat u \<and> unat u \<le> 0xDFFF)"
  by (simp_all add: is_high_surrogate_def is_low_surrogate_def word_le_nat_alt)

lemma scalar_lone_unit: "is_scalar (lone_unit u)"
  using unat_unit [of u]
  by (auto simp: lone_unit_def is_scalar_def is_surrogate_def surrogate_nat)

lemma scalar_pair:
  assumes "is_high_surrogate u" "is_low_surrogate v"
  shows "is_scalar (0x10000 + (unat u - 0xD800) * 0x400 + (unat v - 0xDC00))"
proof -
  have "unat u - 0xD800 < 0x400" "unat v - 0xDC00 < 0x400"
    using assms by (simp_all add: surrogate_nat) linarith+
  then have "0x10000 + (unat u - 0xD800) * 0x400 + (unat v - 0xDC00) < 0x110000"
    by linarith
  then show ?thesis
    by (simp add: is_scalar_def)
qed

lemma scalar_code_points: "list_all is_scalar (to_code_points s)"
  by (induction s rule: to_code_points.induct) (simp_all add: scalar_lone_unit scalar_pair)

lemma encode_decode_code_points:
  "utf8_run utf8_init (TextEncoder_encode s) = to_code_points s"
  unfolding TextEncoder_encode_def by (rule roundtrip_scalars) (rule scalar_code_points)

lemma from_lone_unit: "\<not> is_surrogate u \<Longrightarrow> from_code_point (lone_unit u) = [u]"
  using unat_unit [of u] by (simp add: lone_unit_def from_code_point_def)

lemma from_pair:
  assumes "is_high_surrogate u" "is_low_surrogate v"
  shows "from_code_point (0x10000 + (unat u - 0xD800) * 0x400 + (unat v - 0xDC00)) = [u, v]"
proof -
  define hi where "hi = unat u - 0xD800"
  define lo where "lo = unat v - 0xDC00"
  have u: "0xD800 + hi = unat u" and v: "0xDC00 + lo = unat v"
    using assms unfolding hi_def lo_def by (simp_all add: surrogate_nat)
  have lo: "lo < 0x400"
    using assms v by (simp add: surrogate_nat)
  have "(hi * 0x400 + lo) div 0x400 = hi" "(hi * 0x400 + lo) mod 0x400 = lo"
    using lo by simp_all
  then have "from_code_point (0x10000 + hi * 0x400 + lo) = [of_nat (0xD800 + hi), of_nat (0xDC00 + lo)]"
    by (simp add: from_code_point_def add.assoc del: of_nat_add)
  then show ?thesis
    by (simp only: u v flip: hi_def lo_def) simp
qed

lemma decode_code_points:
  "well_formed s \<Longrightarrow> concat (map from_code_point (to_code_points s)) = s"
  by (induction s rule: to_code_points.induct) (simp_all add: from_lone_unit from_pair)

lemma lone_unit_bom: "(lone_unit u = 0xFEFF) = (u = 0xFEFF)"
proof -
  have "(unat u = 0xFEFF) = (u = 0xFEFF)"
    by (simp add: word_unat_eq_iff)
  then show ?thesis
    by (auto simp: lone_unit_def is_surrogate_def is_high_surrogate_def is_low_surrogate_def)
qed

lemma strip_bom_code_points:
  "\<not> starts_with_bom s \<Longrightarrow> strip_bom (to_code_points s) = to_code_points s"
  by (induction s rule: to_code_points.induct)
    (simp_all add: strip_bom_def starts_with_bom_def lone_unit_bom)

lemma utf8_roundtrip:
  assumes "well_formed s" "\<not> starts_with_bom s"
  shows "TextDecoder_utf8 (TextEncoder_encode s) = s"
  using assms
  by (simp add: TextDecoder_utf8_def encode_decode_code_points strip_bom_code_points
      decode_code_points)

lemma uint_low8: "0 \<le> v \<Longrightarrow> v < 256 \<Longrightarrow> uint (low8 v) = v"
proof -
  assume v: "0 \<le> v" "v < 256"
  have "low8 v = word_of_int v"
    unfolding low8_def low_byte to_uint32_def by (rule bit_word_eqI) (simp add: bit_simps)
  then show ?thesis
    using v by (simp add: uint_word_of_int take_bit_eq_mod)
qed

lemma decodeName_name_field:
  assumes "valid_name nm"
  shows "decodeName (name_field nm) = nm"
proof -
  from assms have a: "is_ascii nm" and l: "length nm \<le> 32" and z: "0 \<notin> set nm" and t: "trim nm = nm"
    by (simp_all add: valid_name_def)
  have nz: "\<forall>b \<in> set (map ucast nm :: byte list). b \<noteq> 0"
    using a z by (auto simp: is_ascii_def list_all_iff ucast_ascii_zero)
  have "name_field nm = map ucast nm @ replicate (32 - length nm) 0"
    using l by (simp add: name_field_def encode_ascii [OF a])
  moreover have "takeWhile (\<lambda>b. b \<noteq> 0) (map ucast nm @ replicate (32 - length nm) (0 :: byte)) =
      map ucast nm"
  proof -
    have "takeWhile (\<lambda>b. b \<noteq> 0) (map ucast nm @ replicate (32 - length nm) (0 :: byte)) =
        map ucast nm @ takeWhile (\<lambda>b. b \<noteq> 0) (replicate (32 - length nm) (0 :: byte))"
      using nz by (intro takeWhile_append2) blast
    then show ?thesis
      by (simp add: takeWhile_replicate)
  qed
  ultimately show ?thesis
    by (simp add: decodeName_eq decode_ascii [OF a] t)
qed

text \<open>C2, amended: let \<open>T\<close> be a script text without unpaired surrogates that does not begin with
  U+FEFF, and \<open>H\<close> header metadata whose load and entry addresses are 32-bit values, whose
  os, arch, type and compression ids are bytes, and whose name is ASCII, at most 32
  characters long, free of NUL and of white space at either end.  Then the container built
  from \<open>T\<close> with \<open>H\<close> as previous header parses without error and without warning, the
  script text returned is \<open>T\<close>, and the load address, entry point, name, os, arch, type
  and compression of the returned header are those of \<open>H\<close>.  (The payload length has to
  fit its 32-bit field, as it does for every string the platform can hold.)\<close>

theorem build_parse_roundtrip:
  assumes wf: "well_formed T" "\<not> starts_with_bom T"
    and fits: "8 + length (TextEncoder_encode T) < 2 ^ 32"
    and hdr: "valid_header H"
    and args: "script args = T" "baseHeader args = Some (as_partial H)"
  shows "\<exists>out h. buildLegacyScriptImage now args = Inr out \<and>
           parseLegacyUImage out = ([], Inr (h, T)) \<and>
           loadAddr h = loadAddr H \<and> entryPoint h = entryPoint H \<and> name h = name H \<and>
           os h = os H \<and> arch h = arch H \<and> type_h h = type_h H \<and> comp_h h = comp_h H"
proof -
  let ?out = "header_bytes now args (crc32 (header_bytes now args 0)) @ payload_bytes (script args)"
  have fields: "field_or (baseHeader args) p_loadAddr (defaultLoadAddr args) = loadAddr H"
    "field_or (baseHeader args) p_entryPoint (defaultEntryPoint args) = entryPoint H"
    "field_or (baseHeader args) p_os 5 = os H"
    "field_or (baseHeader args) p_arch 2 = arch H"
    "field_or (baseHeader args) p_type TYPE_SCRIPT = type_h H"
    "field_or (baseHeader args) p_comp COMP_NONE = comp_h H"
    "field_or (baseHeader args) p_name (defaultName args) = name H"
    by (simp_all add: args field_or_def as_partial_def)
  have fits': "8 + length (TextEncoder_encode (script args)) < 2 ^ 32"
    using fits by (simp add: args)
  have decoded: "TextDecoder_utf8 (TextEncoder_encode (script args)) = T"
    using wf by (simp add: args utf8_roundtrip)
  from hdr have u32: "uint (to_uint32 (loadAddr H)) = loadAddr H"
    "uint (to_uint32 (entryPoint H)) = entryPoint H"
    by (simp_all add: valid_header_def uint_to_uint32)
  from hdr have u8: "uint (low8 (os H)) = os H" "uint (low8 (arch H)) = arch H"
    "uint (low8 (type_h H)) = type_h H" "uint (low8 (comp_h H)) = comp_h H"
    by (simp_all add: valid_header_def uint_low8)
  from hdr have nm: "decodeName (name_field (name H)) = name H"
    by (simp add: valid_header_def decodeName_name_field)
  show ?thesis
    by (simp add: build_eq parse_build [OF fits'] fields decoded u32 u8 nm)
qed

lemma valid_example_header: "valid_header example_header"
  by (simp add: valid_header_def example_header_def valid_name_def is_ascii_def js_literal_def
      trim_def is_js_space_def)

lemma bom_script_encoded: "TextEncoder_encode bom_script = [0xEF, 0xBB, 0xBF, 0x78]"
  by (simp add: bom_script_def text_eval)

lemma bom_script_decoded: "TextDecoder_utf8 (TextEncoder_encode bom_script) = [0x78]"
  by (simp add: TextDecoder_utf8_def encode_decode_code_points strip_bom_def bom_script_def
      lone_unit_def is_surrogate_def is_high_surrogate_def is_low_surrogate_def from_code_point_def)

text \<open>C2, as stated, fails: the script text U+FEFF "x" is encoded with its byte order mark
  (EF BB BF 78 at offset 72), and the parser, whose UTF-8 decoder is made without
  \<open>ignoreBOM\<close>, returns "x" alone.\<close>

theorem roundtrip_drops_byte_order_mark:
  "valid_header example_header \<and>
   slice_list (projr (buildLegacyScriptImage 0 (resave_args bom_script example_header))) 72 76 =
     [0xEF, 0xBB, 0xBF, 0x78] \<and>
   snd (projr (snd (parseLegacyUImage
     (projr (buildLegacyScriptImage 0 (resave_args bom_script example_header)))))) = [0x78] \<and>
   bom_script = [0xFEFF, 0x78]"
proof -
  have fits: "8 + length (TextEncoder_encode (script (resave_args bom_script example_header))) < 2 ^ 32"
    by (simp add: resave_args_def bom_script_encoded)
  have "slice_list (projr (buildLegacyScriptImage 0 (resave_args bom_script example_header))) 72 76 =
      [0xEF, 0xBB, 0xBF, 0x78]"
    by (simp add: build_eq slice_list_def payload_bytes_def resave_args_def bom_script_encoded)
  moreover have "snd (projr (snd (parseLegacyUImage
      (projr (buildLegacyScriptImage 0 (resave_args bom_script example_header)))))) = [0x78]"
    unfolding build_eq sum.sel parse_build [OF fits]
    by (simp add: resave_args_def bom_script_decoded)
  ultimately show ?thesis
    by (simp add: valid_example_header bom_script_def)
qed

theorem build_parse_roundtrip_witness:
  "\<exists>out h. buildLegacyScriptImage 0 (resave_args (js_literal ''x'') example_header) = Inr out \<and>
     parseLegacyUImage out = ([], Inr (h, js_literal ''x'')) \<and>
     loadAddr h = 0x80008000 \<and> entryPoint h = 0x80008000 \<and> name h = js_literal ''boot script'' \<and>
     os h = 5 \<and> arch h = 2 \<and> type_h h = 6 \<and> comp_h h = 0"
proof -
  have "well_formed (js_literal ''x'')" "\<not> starts_with_bom (js_literal ''x'')"
    by (simp_all add: js_literal_def is_surrogate_def is_high_surrogate_def is_low_surrogate_def
        starts_with_bom_def)
  moreover have "8 + length (TextEncoder_encode (js_literal ''x'')) < 2 ^ 32"
    by (simp add: enc_x)
  ultimately show ?thesis
    using build_parse_roundtrip [of "js_literal ''x''" example_header
        "resave_args (js_literal ''x'') example_header" 0] valid_example_header
    by (simp add: resave_args_def example_header_def)
qed

end
